theory Spec2Isabelle
  imports Main
begin

section \<open>JavaScript strings and arrays\<close>

text \<open>
  The server is TypeScript (\<^verbatim>\<open>src/api/index.ts\<close>). Its strings are modelled as
  \<^typ>\<open>string\<close>, a list of 8-bit characters, and the library functions it calls on them
  are written out for ASCII strings (\<open>ascii\<close>), on which they are the functions of
  JavaScript: \<^verbatim>\<open>trim\<close> and the regular expression class \<^verbatim>\<open>\s\<close> remove the six ASCII
  white-space characters, and the case mappings change the letters a-z and A-Z. On other
  strings JavaScript does more (it trims the no-break space and maps the case of every
  letter of Unicode): where a statement depends on what these functions make of an
  arbitrary answer or option text, it has the hypothesis that the text is ASCII. Numbers
  that the code keeps in a
  \<^verbatim>\<open>number\<close> are \<^typ>\<open>int\<close> or \<^typ>\<open>nat\<close>; all of them are small integers (confidences
  between 0 and 100, sums of three of them, counts), where double arithmetic is exact.
\<close>

definition ascii :: "string \<Rightarrow> bool" where
  "ascii s = list_all (\<lambda>c. (of_char c :: nat) < 128) s"

definition is_space :: "char \<Rightarrow> bool" where
  "is_space c = (c \<in> set [CHR 0x09, CHR 0x0A, CHR 0x0B, CHR 0x0C, CHR 0x0D, CHR '' ''])"

definition trim :: "string \<Rightarrow> string" where
  "trim s = rev (dropWhile is_space (rev (dropWhile is_space s)))"

definition upper_char :: "char \<Rightarrow> char" where
  "upper_char c =
     (if c \<in> set ''abcdefghijklmnopqrstuvwxyz''
      then (case c of Char b0 b1 b2 b3 b4 b5 b6 b7 \<Rightarrow> Char b0 b1 b2 b3 b4 False b6 b7)
      else c)"

definition lower_char :: "char \<Rightarrow> char" where
  "lower_char c =
     (if c \<in> set ''ABCDEFGHIJKLMNOPQRSTUVWXYZ''
      then (case c of Char b0 b1 b2 b3 b4 b5 b6 b7 \<Rightarrow> Char b0 b1 b2 b3 b4 True b6 b7)
      else c)"

definition toUpperCase :: "string \<Rightarrow> string" where
  "toUpperCase s = map upper_char s"

definition toLowerCase :: "string \<Rightarrow> string" where
  "toLowerCase s = map lower_char s"

fun startsWith :: "string \<Rightarrow> string \<Rightarrow> bool" where
  "startsWith s [] = True"
| "startsWith [] (p # ps) = False"
| "startsWith (c # cs) (p # ps) = (c = p \<and> startsWith cs ps)"

fun js_includes :: "string \<Rightarrow> string \<Rightarrow> bool" where
  "js_includes [] p = (p = [])"
| "js_includes (c # cs) p = (startsWith (c # cs) p \<or> js_includes cs p)"

fun join :: "string \<Rightarrow> string list \<Rightarrow> string" where
  "join sep [] = []"
| "join sep [x] = x"
| "join sep (x # y # ys) = x @ sep @ join sep (y # ys)"

text \<open>
  \<^verbatim>\<open>[...new Set(letters)]\<close> keeps the first occurrence of every element, in the order of
  insertion.
\<close>

definition js_dedupe :: "'a list \<Rightarrow> 'a list" where
  "js_dedupe xs = rev (remdups (rev xs))"

text \<open>
  \<^verbatim>\<open>Array.prototype.sort\<close> with a comparator is stable: an insertion sort that puts an
  element before the first one it does not compare greater than.
\<close>

fun insert_by :: "('a \<Rightarrow> 'a \<Rightarrow> int) \<Rightarrow> 'a \<Rightarrow> 'a list \<Rightarrow> 'a list" where
  "insert_by cmp x [] = [x]"
| "insert_by cmp x (y # ys) = (if cmp x y \<le> 0 then x # y # ys else y # insert_by cmp x ys)"

definition js_sort :: "('a \<Rightarrow> 'a \<Rightarrow> int) \<Rightarrow> 'a list \<Rightarrow> 'a list" where
  "js_sort cmp xs = foldr (insert_by cmp) xs []"

text \<open>
  The answer strings the code builds from letters:
  \<^verbatim>\<open>[...new Set(letters)].sort().join(", ")\<close>, where every element is one letter, so that
  the default sort orders by character code.
\<close>

definition letter_set_string :: "string \<Rightarrow> string" where
  "letter_set_string letters =
     join '', '' (map (\<lambda>c. [c]) (sort_key (of_char :: char \<Rightarrow> nat) (js_dedupe letters)))"

text \<open>\<^verbatim>\<open>s.match(/[A-F]/g)\<close>: the letters A to F of \<open>s\<close>, in order (none: \<^verbatim>\<open>null\<close>).\<close>

definition letters_AF :: "string \<Rightarrow> string" where
  "letters_AF s = filter (\<lambda>c. c \<in> set ''ABCDEF'') s"

text \<open>\<^verbatim>\<open>Math.round(total / count)\<close> on integers: halves round up.\<close>

definition round_div :: "int \<Rightarrow> nat \<Rightarrow> int" where
  "round_div t n = (2 * t + int n) div (2 * int n)"

section \<open>Objects used as dictionaries\<close>

text \<open>
  \<^verbatim>\<open>voteCounts\<close> and \<^verbatim>\<open>answerCounts\<close> are plain objects used as dictionaries. The
  entries of such an object are an association list in the order of insertion;
  \<^verbatim>\<open>Object.entries\<close> lists the keys that are array indices (canonical decimal numerals
  below \<open>2^32 - 1\<close>) first, in ascending numeric order, then the other keys in the order
  of insertion.

  A plain object also inherits the members of \<^verbatim>\<open>Object.prototype\<close>. For one of their
  names \<^verbatim>\<open>obj[k]\<close> is never \<^verbatim>\<open>undefined\<close>: it is the inherited function (for
  \<^verbatim>\<open>__proto__\<close> the prototype itself), which is truthy and has none of the fields of an
  entry.
\<close>

definition inherited_members :: "string list" where
  "inherited_members =
     [''constructor'', ''__defineGetter__'', ''__defineSetter__'', ''hasOwnProperty'',
      ''__lookupGetter__'', ''__lookupSetter__'', ''isPrototypeOf'', ''propertyIsEnumerable'',
      ''toString'', ''valueOf'', ''__proto__'', ''toLocaleString'']"

definition is_digit :: "char \<Rightarrow> bool" where
  "is_digit c = (c \<in> set ''0123456789'')"

definition nat_of_digits :: "string \<Rightarrow> nat" where
  "nat_of_digits s = foldl (\<lambda>n c. 10 * n + ((of_char c :: nat) - 48)) 0 s"

definition is_array_index :: "string \<Rightarrow> bool" where
  "is_array_index k =
     (k \<noteq> [] \<and> list_all is_digit k \<and> (k = ''0'' \<or> hd k \<noteq> CHR ''0'')
      \<and> nat_of_digits k < 4294967295)"

definition object_entries :: "(string \<times> 'v) list \<Rightarrow> (string \<times> 'v) list" where
  "object_entries obj =
     sort_key (\<lambda>kv. nat_of_digits (fst kv)) (filter (\<lambda>kv. is_array_index (fst kv)) obj)
     @ filter (\<lambda>kv. \<not> is_array_index (fst kv)) obj"

section \<open>Types\<close>

text \<open>
  \<^verbatim>\<open>MODELS\<close>: three workers and the judge. \<^verbatim>\<open>QuestionOption\<close> has the fields
  \<^verbatim>\<open>label\<close> and \<^verbatim>\<open>text\<close>. A \<^verbatim>\<open>ModelResult\<close> is what \<^verbatim>\<open>callSingleModel\<close> returns:
  \<^verbatim>\<open>{success: true, answer, confidence, model, raw}\<close> or
  \<^verbatim>\<open>{success: false, model, error}\<close>. \<^verbatim>\<open>VotingResult\<close> has the optional fields
  \<^verbatim>\<open>votes\<close> and \<^verbatim>\<open>modelAnswers\<close>, which only the confidence-weighted vote fills.
\<close>

definition MODELS :: "string list" where
  "MODELS = [''gemini-3-flash-preview'', ''gemini-2.0-flash-001'', ''gemini-2.5-flash-lite'',
     ''gemini-2.5-pro'']"

definition TTL_MS :: int where
  "TTL_MS = 120 * 1000"

record QuestionOption =
  opt_label :: string
  opt_text :: string

datatype ModelResult =
  Success (model: string) (answer: string) (confidence: int) (raw: string)
| Failure (model: string) (error: string)

fun success :: "ModelResult \<Rightarrow> bool" where
  "success (Success m a c r) = True"
| "success (Failure m e) = False"

record VotingResult =
  finalAnswer :: string
  finalConfidence :: int
  votes :: "(string \<times> nat \<times> int) list option"
  modelAnswers :: "(string \<times> string \<times> int) list option"
  method_used :: string

record vote_data =
  count :: nat
  totalConfidence :: int
  models :: "string list"

record vote_entry =
  v_answer :: string
  v_count :: nat
  v_avgConfidence :: int
  v_models :: "string list"

section \<open>JSON values\<close>

text \<open>
  \<^verbatim>\<open>JSON.parse\<close> belongs to the runtime. Its values are modelled by \<open>json\<close>, its grammar
  by a lexer and a parser that reads the tokens with a stack of the open arrays and
  objects. A number is an integer literal (of magnitude below \<open>2^53\<close>, which a double
  holds exactly): a literal with a fraction or an exponent is outside the model, and
  \<open>JSON_parse\<close> rejects it. An escape \<^verbatim>\<open>\uXXXX\<close> becomes the UTF-8 bytes of its code.
\<close>

datatype json =
  JNull
| JBool bool
| JNum int
| JStr string
| JArr "json list"
| JObj "(string \<times> json) list"

datatype token =
  TLBrace | TRBrace | TLBracket | TRBracket | TComma | TColon
| TString string | TNumber int | TTrue | TFalse | TNull

definition backslash :: char where
  "backslash = CHR 0x5C"

definition hex_value :: "char \<Rightarrow> nat option" where
  "hex_value c =
     (if is_digit c then Some ((of_char c :: nat) - 48)
      else if c \<in> set ''abcdef'' then Some ((of_char c :: nat) - 87)
      else if c \<in> set ''ABCDEF'' then Some ((of_char c :: nat) - 55)
      else None)"

definition utf8 :: "nat \<Rightarrow> string" where
  "utf8 code =
     (if code < 128 then [char_of code]
      else if code < 2048 then [char_of (192 + code div 64), char_of (128 + code mod 64)]
      else [char_of (224 + code div 4096), char_of (128 + (code div 64) mod 64),
            char_of (128 + code mod 64)])"

definition unescape :: "char \<Rightarrow> char option" where
  \<open>unescape e =
     (if e = CHR ''"'' \<or> e = backslash \<or> e = CHR ''/'' then Some e
      else if e = CHR ''b'' then Some (CHR 0x08)
      else if e = CHR ''f'' then Some (CHR 0x0C)
      else if e = CHR ''n'' then Some (CHR 0x0A)
      else if e = CHR ''r'' then Some (CHR 0x0D)
      else if e = CHR ''t'' then Some (CHR 0x09)
      else None)\<close>

definition number_token :: "string \<Rightarrow> token option" where
  "number_token lexeme =
     (let digits = (if lexeme \<noteq> [] \<and> hd lexeme = CHR ''-'' then tl lexeme else lexeme)
      in if digits \<noteq> [] \<and> list_all is_digit digits \<and> (digits = ''0'' \<or> hd digits \<noteq> CHR ''0'')
         then Some (TNumber (if lexeme \<noteq> [] \<and> hd lexeme = CHR ''-''
                             then - int (nat_of_digits digits) else int (nat_of_digits digits)))
         else None)"

definition word_token :: "string \<Rightarrow> token option" where
  "word_token w =
     (if w = ''true'' then Some TTrue else if w = ''false'' then Some TFalse
      else if w = ''null'' then Some TNull else None)"

definition punctuation :: "char \<Rightarrow> token option" where
  "punctuation c =
     (if c = CHR ''{'' then Some TLBrace else if c = CHR ''}'' then Some TRBrace
      else if c = CHR ''['' then Some TLBracket else if c = CHR '']'' then Some TRBracket
      else if c = CHR '','' then Some TComma else if c = CHR '':'' then Some TColon
      else None)"

definition is_lower :: "char \<Rightarrow> bool" where
  "is_lower c = (c \<in> set ''abcdefghijklmnopqrstuvwxyz'')"

definition emit :: "token option \<Rightarrow> token list option \<Rightarrow> token list option" where
  "emit t toks =
     (case t of None \<Rightarrow> None
      | Some t' \<Rightarrow> (case toks of None \<Rightarrow> None | Some toks' \<Rightarrow> Some (t' # toks')))"

fun lex :: "string \<Rightarrow> token list option"
  and lex_string :: "string \<Rightarrow> string \<Rightarrow> token list option"
  and lex_escape :: "string \<Rightarrow> string \<Rightarrow> token list option"
  and lex_number :: "string \<Rightarrow> string \<Rightarrow> token list option"
  and lex_word :: "string \<Rightarrow> string \<Rightarrow> token list option" where
  "lex [] = Some []"
| \<open>lex (c # cs) =
     (if c \<in> set [CHR '' '', CHR 0x09, CHR 0x0A, CHR 0x0D] then lex cs
      else if c = CHR ''"'' then lex_string [] cs
      else if c = CHR ''-'' \<or> is_digit c then lex_number [c] cs
      else if is_lower c then lex_word [c] cs
      else emit (punctuation c) (lex cs))\<close>
| "lex_string acc [] = None"
| \<open>lex_string acc (c # cs) =
     (if c = CHR ''"'' then emit (Some (TString (rev acc))) (lex cs)
      else if c = backslash then lex_escape acc cs
      else if (of_char c :: nat) < 32 then None
      else lex_string (c # acc) cs)\<close>
| "lex_escape acc [] = None"
| "lex_escape acc (e # cs) =
     (if e = CHR ''u'' then
        (case cs of
           h1 # h2 # h3 # h4 # rest \<Rightarrow>
             (case (hex_value h1, hex_value h2, hex_value h3, hex_value h4) of
                (Some a, Some b, Some c, Some d) \<Rightarrow>
                  lex_string (rev (utf8 (((a * 16 + b) * 16 + c) * 16 + d)) @ acc) rest
              | _ \<Rightarrow> None)
         | _ \<Rightarrow> None)
      else (case unescape e of Some ch \<Rightarrow> lex_string (ch # acc) cs | None \<Rightarrow> None))"
| "lex_number acc [] = emit (number_token (rev acc)) (Some [])"
| "lex_number acc (c # cs) =
     (if is_digit c \<or> c = CHR ''-'' then lex_number (c # acc) cs
      else if c \<in> set ''.eE'' then None
      else emit (number_token (rev acc)) (lex (c # cs)))"
| "lex_word acc [] = emit (word_token (rev acc)) (Some [])"
| "lex_word acc (c # cs) =
     (if is_lower c then lex_word (c # acc) cs
      else emit (word_token (rev acc)) (lex (c # cs)))"

text \<open>
  The parser: what it expects next, and the stack of the open arrays (with their
  elements so far, last first) and objects (with their members so far and the key that
  waits for its value).
\<close>

datatype expect =
  WantValue | WantValueOrClose | WantKeyOrClose | WantKey | WantColon | WantCommaOrClose
| Finished

datatype frame =
  InArray "json list"
| InObject "(string \<times> json) list" "string option"

type_synonym parser_state = "expect \<times> frame list \<times> json option"

fun complete :: "json \<Rightarrow> frame list \<Rightarrow> parser_state option" where
  "complete v [] = Some (Finished, [], Some v)"
| "complete v (InArray xs # fs) = Some (WantCommaOrClose, InArray (v # xs) # fs, None)"
| "complete v (InObject kvs (Some k) # fs) =
     Some (WantCommaOrClose, InObject ((k, v) # kvs) None # fs, None)"
| "complete v (InObject kvs None # fs) = None"

definition wants_value :: "expect \<Rightarrow> bool" where
  "wants_value e = (e = WantValue \<or> e = WantValueOrClose)"

fun parse_step :: "parser_state \<Rightarrow> token \<Rightarrow> parser_state option" where
  "parse_step (e, fs, r) TLBracket =
     (if wants_value e then Some (WantValueOrClose, InArray [] # fs, None) else None)"
| "parse_step (e, fs, r) TRBracket =
     (case fs of
        InArray xs # fs' \<Rightarrow>
          (if e = WantValueOrClose \<or> e = WantCommaOrClose then complete (JArr (rev xs)) fs'
           else None)
      | _ \<Rightarrow> None)"
| "parse_step (e, fs, r) TLBrace =
     (if wants_value e then Some (WantKeyOrClose, InObject [] None # fs, None) else None)"
| "parse_step (e, fs, r) TRBrace =
     (case fs of
        InObject kvs None # fs' \<Rightarrow>
          (if e = WantKeyOrClose \<or> e = WantCommaOrClose then complete (JObj (rev kvs)) fs'
           else None)
      | _ \<Rightarrow> None)"
| "parse_step (e, fs, r) TComma =
     (if e = WantCommaOrClose then
        (case fs of
           InArray xs # fs' \<Rightarrow> Some (WantValue, fs, None)
         | InObject kvs None # fs' \<Rightarrow> Some (WantKey, fs, None)
         | _ \<Rightarrow> None)
      else None)"
| "parse_step (e, fs, r) TColon = (if e = WantColon then Some (WantValue, fs, None) else None)"
| "parse_step (e, fs, r) (TString s) =
     (if e = WantKeyOrClose \<or> e = WantKey then
        (case fs of
           InObject kvs None # fs' \<Rightarrow> Some (WantColon, InObject kvs (Some s) # fs', None)
         | _ \<Rightarrow> None)
      else if wants_value e then complete (JStr s) fs
      else None)"
| "parse_step (e, fs, r) (TNumber n) = (if wants_value e then complete (JNum n) fs else None)"
| "parse_step (e, fs, r) TTrue = (if wants_value e then complete (JBool True) fs else None)"
| "parse_step (e, fs, r) TFalse = (if wants_value e then complete (JBool False) fs else None)"
| "parse_step (e, fs, r) TNull = (if wants_value e then complete JNull fs else None)"

fun parse_tokens :: "parser_state \<Rightarrow> token list \<Rightarrow> json option" where
  "parse_tokens (e, fs, r) [] = (if e = Finished \<and> fs = [] then r else None)"
| "parse_tokens st (t # toks) =
     (case parse_step st t of None \<Rightarrow> None | Some st' \<Rightarrow> parse_tokens st' toks)"

text \<open>\<^verbatim>\<open>JSON.parse\<close>: \<open>None\<close> is the \<^verbatim>\<open>SyntaxError\<close> it throws.\<close>

definition JSON_parse :: "string \<Rightarrow> json option" where
  "JSON_parse s =
     (case lex s of None \<Rightarrow> None | Some toks \<Rightarrow> parse_tokens (WantValue, [], None) toks)"

text \<open>
  What the code does with a parsed value: it reads a property (\<open>None\<close> is
  \<^verbatim>\<open>undefined\<close>; of two members with one key the last counts), tests it for truth,
  turns it into a string with \<^verbatim>\<open>String\<close> and into a number with \<^verbatim>\<open>parseInt\<close> (\<open>None\<close>
  is \<^verbatim>\<open>NaN\<close>).
\<close>

definition property :: "json \<Rightarrow> string \<Rightarrow> json option" where
  "property v name = (case v of JObj kvs \<Rightarrow> map_of (rev kvs) name | _ \<Rightarrow> None)"

definition truthy :: "json option \<Rightarrow> bool" where
  "truthy v =
     (case v of
        None \<Rightarrow> False
      | Some JNull \<Rightarrow> False
      | Some (JBool b) \<Rightarrow> b
      | Some (JNum n) \<Rightarrow> n \<noteq> 0
      | Some (JStr s) \<Rightarrow> s \<noteq> []
      | Some (JArr xs) \<Rightarrow> True
      | Some (JObj kvs) \<Rightarrow> True)"

function show_nat :: "nat \<Rightarrow> string" where
  "show_nat n =
     (if n < 10 then [char_of (48 + n)] else show_nat (n div 10) @ [char_of (48 + n mod 10)])"
  by pat_completeness auto
termination
  by (relation "measure id") auto

definition show_int :: "int \<Rightarrow> string" where
  "show_int i = (if i < 0 then CHR ''-'' # show_nat (nat (- i)) else show_nat (nat i))"

fun js_String :: "json \<Rightarrow> string" and js_join :: "json list \<Rightarrow> string" where
  "js_String JNull = ''null''"
| "js_String (JBool b) = (if b then ''true'' else ''false'')"
| "js_String (JNum n) = show_int n"
| "js_String (JStr s) = s"
| "js_String (JArr xs) = js_join xs"
| "js_String (JObj kvs) = ''[object Object]''"
| "js_join [] = []"
| "js_join (x # xs) =
     (if x = JNull then [] else js_String x) @ (if xs = [] then [] else CHR '','' # js_join xs)"

definition to_string :: "json option \<Rightarrow> string" where
  "to_string v = (case v of None \<Rightarrow> ''undefined'' | Some v' \<Rightarrow> js_String v')"

definition digit_value :: "nat \<Rightarrow> char \<Rightarrow> nat option" where
  "digit_value radix c =
     (case hex_value c of None \<Rightarrow> None | Some d \<Rightarrow> if d < radix then Some d else None)"

definition parseInt :: "string \<Rightarrow> int option" where
  "parseInt s =
     (let s1 = dropWhile is_space s;
          negative = (s1 \<noteq> [] \<and> hd s1 = CHR ''-'');
          s2 = (if s1 \<noteq> [] \<and> (hd s1 = CHR ''-'' \<or> hd s1 = CHR ''+'') then tl s1 else s1);
          hex = (startsWith s2 ''0x'' \<or> startsWith s2 ''0X'');
          radix = (if hex then 16 else 10);
          s3 = (if hex then drop 2 s2 else s2);
          digits = takeWhile (\<lambda>c. digit_value radix c \<noteq> None) s3;
          magnitude = foldl (\<lambda>n c. radix * n + the (digit_value radix c)) 0 digits
      in if digits = [] then None
         else Some (if negative then - int magnitude else int magnitude))"

section \<open>Extracting the answer\<close>

text \<open>
  \<^verbatim>\<open>parseAnswerWithConfidence\<close> and its regular expressions, each written as the
  function that finds its leftmost match.

  The two replacements that delete the marks of a fenced block, the first with the line
  break beside a mark; the counter says how many characters of a mark are still to skip.
\<close>

definition fence :: string where
  "fence = [CHR 0x60, CHR 0x60, CHR 0x60]"

fun strip_fences :: "nat \<Rightarrow> string \<Rightarrow> string" where
  "strip_fences n [] = []"
| "strip_fences n (c # cs) =
     (if 0 < n then strip_fences (n - 1) cs
      else if startsWith (c # cs) (fence @ ''json'' @ [CHR 0x0A]) then strip_fences 7 cs
      else if startsWith (c # cs) (fence @ ''json'') then strip_fences 6 cs
      else if startsWith (c # cs) (CHR 0x0A # fence) then strip_fences 3 cs
      else if startsWith (c # cs) fence then strip_fences 2 cs
      else c # strip_fences 0 cs)"

fun strip_marks :: "nat \<Rightarrow> string \<Rightarrow> string" where
  "strip_marks n [] = []"
| "strip_marks n (c # cs) =
     (if 0 < n then strip_marks (n - 1) cs
      else if startsWith (c # cs) (fence @ ''json'') then strip_marks 6 cs
      else if startsWith (c # cs) fence then strip_marks 2 cs
      else c # strip_marks 0 cs)"

text \<open>
  \<^verbatim>\<open>text.match(/\{[\s\S]*?"answer"[\s\S]*?\}/)\<close>: from the leftmost brace that has
  \<^verbatim>\<open>"answer"\<close> and then a closing brace after it, through the first \<^verbatim>\<open>"answer"\<close>, to the
  first closing brace behind that. (When no closing brace follows the first
  \<^verbatim>\<open>"answer"\<close>, none follows a later one either.)
\<close>

fun split_at :: "string \<Rightarrow> string \<Rightarrow> (string \<times> string) option" where
  "split_at p [] = (if p = [] then Some ([], []) else None)"
| "split_at p (c # cs) =
     (if startsWith (c # cs) p then Some ([], drop (length p) (c # cs))
      else (case split_at p cs of None \<Rightarrow> None | Some ba \<Rightarrow> Some (c # fst ba, snd ba)))"

fun match_json_object :: "string \<Rightarrow> string option" where
  "match_json_object [] = None"
| \<open>match_json_object (c # cs) =
     (if c = CHR ''{'' then
        (case split_at ''"answer"'' cs of
           None \<Rightarrow> match_json_object cs
         | Some pa \<Rightarrow>
             (case split_at ''}'' (snd pa) of
                None \<Rightarrow> match_json_object cs
              | Some mb \<Rightarrow> Some (CHR ''{'' # fst pa @ ''"answer"'' @ fst mb @ ''}'')))
      else match_json_object cs)\<close>

text \<open>
  The result of a parsed JSON value: \<^verbatim>\<open>String(parsed.answer || "").toUpperCase()\<close> and
  \<^verbatim>\<open>Math.min(100, Math.max(0, parseInt(parsed.confidence) || 50))\<close>. Reading a property
  of \<^verbatim>\<open>null\<close> throws, which the \<^verbatim>\<open>catch\<close> ignores like a syntax error (\<open>None\<close>).
\<close>

definition confidence_of :: "json option \<Rightarrow> int" where
  "confidence_of v =
     min 100 (max 0 (case parseInt (to_string v) of
                       None \<Rightarrow> 50
                     | Some n \<Rightarrow> if n = 0 then 50 else n))"

definition from_json :: "string \<Rightarrow> (string \<times> int) option" where
  "from_json s =
     (case JSON_parse s of
        None \<Rightarrow> None
      | Some JNull \<Rightarrow> None
      | Some parsed \<Rightarrow>
          Some (toUpperCase (if truthy (property parsed ''answer'')
                             then to_string (property parsed ''answer'') else []),
                confidence_of (property parsed ''confidence'')))"

text \<open>
  \<^verbatim>\<open>/^\s*([A-F])(?:\s*[,\s]\s*([A-F]))*\s*$/i\<close>: letters, each two of them separated by
  white space with at most one comma in it. The scan is behind a letter; it counts the
  commas of the run of separators it is in.
\<close>

definition is_answer_letter :: "char \<Rightarrow> bool" where
  "is_answer_letter c = (upper_char c \<in> set ''ABCDEF'')"

fun strict_scan :: "nat \<Rightarrow> bool \<Rightarrow> string \<Rightarrow> bool" where
  "strict_scan commas in_run [] = (commas = 0)"
| "strict_scan commas in_run (c # cs) =
     (if is_space c then strict_scan commas True cs
      else if c = CHR '','' then strict_scan (commas + 1) True cs
      else is_answer_letter c \<and> in_run \<and> commas \<le> 1 \<and> strict_scan 0 False cs)"

definition strict_letters :: "string \<Rightarrow> bool" where
  "strict_letters s =
     (case dropWhile is_space s of
        [] \<Rightarrow> False
      | c # cs \<Rightarrow> is_answer_letter c \<and> strict_scan 0 False cs)"

text \<open>
  \<^verbatim>\<open>/(?:answer|jawaban|option)\s*:?\s*(\*+)?\s*([A-F](?:,\s*[A-F])*)(?:\s|$|\*)/i\<close>: the
  letters of its second group at the leftmost match. Behind the letters must come white
  space, an asterisk or the end; a comma that no letter follows ends the attempt at this
  position, since the shorter groups the expression then tries all end before a comma.
\<close>

fun group_end :: "string \<Rightarrow> string \<Rightarrow> string option"
  and after_comma :: "string \<Rightarrow> string \<Rightarrow> string option" where
  "group_end letters [] = Some letters"
| "group_end letters (c # cs) =
     (if is_space c \<or> c = CHR ''*'' then Some letters
      else if c = CHR '','' then after_comma letters cs
      else None)"
| "after_comma letters [] = None"
| "after_comma letters (c # cs) =
     (if is_space c then after_comma letters cs
      else if is_answer_letter c then group_end (letters @ [c]) cs
      else None)"

definition keyword_rest :: "string \<Rightarrow> string option" where
  "keyword_rest s =
     (if startsWith (toLowerCase (take 6 s)) ''answer'' then Some (drop 6 s)
      else if startsWith (toLowerCase (take 7 s)) ''jawaban'' then Some (drop 7 s)
      else if startsWith (toLowerCase (take 6 s)) ''option'' then Some (drop 6 s)
      else None)"

definition labeled_at :: "string \<Rightarrow> string option" where
  "labeled_at s =
     (case keyword_rest s of
        None \<Rightarrow> None
      | Some r \<Rightarrow>
          (let r1 = dropWhile is_space r;
               r2 = (if r1 \<noteq> [] \<and> hd r1 = CHR '':'' then tl r1 else r1);
               r3 = dropWhile is_space r2;
               r4 = dropWhile (\<lambda>c. c = CHR ''*'') r3;
               r5 = dropWhile is_space r4
           in case r5 of
                [] \<Rightarrow> None
              | c # cs \<Rightarrow> if is_answer_letter c then group_end [c] cs else None))"

fun match_labeled_answer :: "string \<Rightarrow> string option" where
  "match_labeled_answer [] = None"
| "match_labeled_answer (c # cs) =
     (case labeled_at (c # cs) of
        Some letters \<Rightarrow> Some letters
      | None \<Rightarrow> match_labeled_answer cs)"

text \<open>The strategies, in the order of the code; the first that matches gives the result.\<close>

definition whole_json :: "string \<Rightarrow> (string \<times> int) option" where
  "whole_json txt = from_json (trim (strip_fences 0 txt))"

definition json_in_text :: "string \<Rightarrow> (string \<times> int) option" where
  "json_in_text txt =
     (case match_json_object txt of
        None \<Rightarrow> None
      | Some jsonStr \<Rightarrow> from_json (trim (strip_marks 0 jsonStr)))"

definition boolean_literal :: "string \<Rightarrow> (string \<times> int) option" where
  "boolean_literal txt =
     (if toLowerCase txt = ''true'' \<or> toLowerCase txt = ''false''
      then Some (toLowerCase txt, 85) else None)"

definition short_letters :: "string \<Rightarrow> (string \<times> int) option" where
  "short_letters txt =
     (if strict_letters txt \<and> letters_AF (toUpperCase txt) \<noteq> []
         \<and> length (letters_AF (toUpperCase txt)) \<le> 6
      then Some (letter_set_string (letters_AF (toUpperCase txt)), 70) else None)"

definition labeled_answer :: "string \<Rightarrow> (string \<times> int) option" where
  "labeled_answer txt =
     (case match_labeled_answer txt of
        None \<Rightarrow> None
      | Some g \<Rightarrow>
          (if letters_AF (toUpperCase g) \<noteq> []
           then Some (letter_set_string (letters_AF (toUpperCase g)), 65) else None))"

definition letter_scan :: "string \<Rightarrow> (string \<times> int) option" where
  "letter_scan txt =
     (if length txt \<le> 10 \<and> letters_AF (toUpperCase txt) \<noteq> []
         \<and> length (letters_AF (toUpperCase txt)) \<le> 4
      then Some (letter_set_string (letters_AF (toUpperCase txt)), 60) else None)"

fun first_of :: "('a \<Rightarrow> 'b option) list \<Rightarrow> 'a \<Rightarrow> 'b option" where
  "first_of [] x = None"
| "first_of (f # fs) x = (case f x of Some y \<Rightarrow> Some y | None \<Rightarrow> first_of fs x)"

definition parseAnswerWithConfidence :: "string option \<Rightarrow> string \<times> int" where
  "parseAnswerWithConfidence rawText =
     (case rawText of
        None \<Rightarrow> ([], 50)
      | Some rw \<Rightarrow>
          (if rw = [] then ([], 50)
           else
             (case first_of
                     [whole_json, json_in_text, boolean_literal, short_letters,
                      labeled_answer, letter_scan]
                     (trim rw) of
                Some res \<Rightarrow> res
              | None \<Rightarrow> ([], 0))))"

section \<open>The provider client\<close>

text \<open>
  \<^verbatim>\<open>formatError\<close> turns an error into a short message. An error is its name and its
  message; \<^verbatim>\<open>String(error.message || error || "Unknown error")\<close> is the message, or for an
  empty message the name. The symbols in front of the short messages are written as
  their UTF-8 bytes.
\<close>

record js_error =
  err_name :: string
  err_message :: string

definition sym_busy :: string where
  "sym_busy = [CHR 0xF0, CHR 0x9F, CHR 0x94, CHR 0x84]"

definition sym_limit :: string where
  "sym_limit = [CHR 0xE2, CHR 0x8F, CHR 0xB3]"

definition sym_key :: string where
  "sym_key = [CHR 0xF0, CHR 0x9F, CHR 0x94, CHR 0x91]"

definition sym_question :: string where
  "sym_question = [CHR 0xE2, CHR 0x9D, CHR 0x93]"

definition sym_clock :: string where
  "sym_clock = [CHR 0xE2, CHR 0x8F, CHR 0xB0]"

definition sym_blocked :: string where
  "sym_blocked = [CHR 0xF0, CHR 0x9F, CHR 0x9A, CHR 0xAB]"

definition sym_network :: string where
  "sym_network = [CHR 0xF0, CHR 0x9F, CHR 0x93, CHR 0xA1]"

definition sym_empty :: string where
  "sym_empty = [CHR 0xF0, CHR 0x9F, CHR 0x93, CHR 0xAD]"

text \<open>
  \<^verbatim>\<open>msg.match(/\{"error".*\}/)\<close>: from the leftmost \<^verbatim>\<open>{"error"\<close> whose line has a closing
  brace behind it, to the last closing brace of that line.
\<close>

definition to_last_brace :: "string \<Rightarrow> string option" where
  "to_last_brace s =
     (let ln = takeWhile (\<lambda>c. c \<noteq> CHR 0x0A \<and> c \<noteq> CHR 0x0D) s
      in if CHR ''}'' \<in> set ln
         then Some (rev (dropWhile (\<lambda>c. c \<noteq> CHR ''}'') (rev ln)))
         else None)"

fun match_error_object :: "string \<Rightarrow> string option" where
  "match_error_object [] = None"
| \<open>match_error_object (c # cs) =
     (if startsWith (c # cs) ''{"error"'' then
        (case to_last_brace (drop 8 (c # cs)) of
           Some r \<Rightarrow> Some (''{"error"'' @ r)
         | None \<Rightarrow> match_error_object cs)
      else match_error_object cs)\<close>

definition error_field :: "json \<Rightarrow> string \<Rightarrow> json option" where
  "error_field parsed name =
     (case property parsed ''error'' of
        None \<Rightarrow> None
      | Some JNull \<Rightarrow> None
      | Some e \<Rightarrow> property e name)"

definition api_error_message :: "string \<Rightarrow> string option" where
  \<open>api_error_message msg =
     (if js_includes msg ''{"error"'' then
        (case match_error_object msg of
           None \<Rightarrow> None
         | Some jsonMatch \<Rightarrow>
             (case JSON_parse jsonMatch of
                None \<Rightarrow> None
              | Some JNull \<Rightarrow> None
              | Some parsed \<Rightarrow>
                  (let code = error_field parsed ''code'';
                       status = error_field parsed ''status''
                   in if code = Some (JNum 503) \<or> status = Some (JStr ''UNAVAILABLE'')
                      then Some (sym_busy @ '' Server Sibuk'')
                      else if code = Some (JNum 429) then Some (sym_limit @ '' Rate limit'')
                      else if code = Some (JNum 400) \<and> js_includes msg ''API key expired''
                      then Some (sym_key @ '' API key expired'')
                      else if code = Some (JNum 400) \<and> js_includes msg ''API_KEY_INVALID''
                      then Some (sym_key @ '' API key invalid'')
                      else if code = Some (JNum 401) then Some (sym_key @ '' API key salah'')
                      else if code = Some (JNum 404) then Some (sym_question @ '' Model tidak ada'')
                      else None)))
      else None)\<close>

definition formatError :: "js_error \<Rightarrow> string" where
  "formatError err =
     (let msg = (if err_message err \<noteq> [] then err_message err else err_name err)
      in case api_error_message msg of
           Some short \<Rightarrow> short
         | None \<Rightarrow>
             (if js_includes msg ''503'' \<or> js_includes msg ''overload''
                 \<or> js_includes msg ''UNAVAILABLE''
              then sym_busy @ '' Server sibuk''
              else if js_includes msg ''429'' \<or> js_includes msg ''RESOURCE_EXHAUSTED''
                 \<or> js_includes msg ''quota''
              then sym_limit @ '' Rate limit''
              else if js_includes msg ''timeout'' \<or> js_includes msg ''DEADLINE_EXCEEDED''
              then sym_clock @ '' Timeout''
              else if js_includes msg ''API key expired'' then sym_key @ '' API key expired''
              else if js_includes msg ''401'' \<or> js_includes msg ''API_KEY''
                 \<or> js_includes msg ''authentication''
              then sym_key @ '' API key invalid''
              else if js_includes msg ''404'' \<or> js_includes msg ''not found''
              then sym_question @ '' Model tidak ada''
              else if js_includes msg ''SAFETY'' \<or> js_includes msg ''blocked''
              then sym_blocked @ '' Diblokir safety''
              else if js_includes msg ''ECONNREFUSED'' \<or> js_includes msg ''network''
              then sym_network @ '' Network error''
              else if js_includes msg ''Empty response'' \<or> js_includes msg ''parse failure''
              then sym_empty @ '' Jawaban kosong''
              else take 30 msg @ (if 30 < length msg then ''...'' else [])))"

text \<open>
  \<^verbatim>\<open>extractText\<close>. Of a response the code reads the property \<^verbatim>\<open>text\<close>, a string or a
  function (\<open>None\<close>: the call throws), and the text of the first part of the first
  candidate.
\<close>

datatype text_property = NoText | TextString string | TextFunction "string option"

record api_response =
  resp_text :: text_property
  first_part_text :: "string option"

definition extractText :: "api_response \<Rightarrow> string option" where
  "extractText resp =
     (case resp_text resp of
        TextString s \<Rightarrow> Some s
      | TextFunction r \<Rightarrow> r
      | NoText \<Rightarrow>
          (case first_part_text resp of
             None \<Rightarrow> None
           | Some t \<Rightarrow> if t \<noteq> [] then Some t else None))"

text \<open>
  \<^verbatim>\<open>callSingleModel\<close>. What the provider does at the attempts 1, 2, ... of a call is the
  parameter \<open>provider\<close>: \<^verbatim>\<open>generateContent\<close> throws an error or returns a response. The
  model returns the result with the number of attempts made and the waits in
  milliseconds between them. One attempt is the body of the \<^verbatim>\<open>try\<close>: its error, thrown
  by the provider or by the code itself for an empty or unreadable reply, is caught by
  the one \<^verbatim>\<open>catch\<close>, which asks for nothing but whether the attempt was the last.
\<close>

datatype attempt_outcome = Throws js_error | Responds api_response

definition try_attempt :: "string \<Rightarrow> attempt_outcome \<Rightarrow> js_error + ModelResult" where
  "try_attempt m outcome =
     (case outcome of
        Throws err \<Rightarrow> Inl err
      | Responds resp \<Rightarrow>
          (case extractText resp of
             None \<Rightarrow> Inl \<lparr>err_name = ''Error'', err_message = ''Empty response or parse failure''\<rparr>
           | Some rawText \<Rightarrow>
               (if rawText \<noteq> [] \<and> trim rawText \<noteq> []
                   \<and> fst (parseAnswerWithConfidence (Some rawText)) \<noteq> []
                then Inr (Success m (fst (parseAnswerWithConfidence (Some rawText)))
                            (snd (parseAnswerWithConfidence (Some rawText))) rawText)
                else Inl \<lparr>err_name = ''Error'',
                          err_message = ''Empty response or parse failure''\<rparr>)))"

definition isOverload :: "string \<Rightarrow> bool" where
  "isOverload errMsg =
     (js_includes errMsg ''503'' \<or> js_includes errMsg ''429'' \<or> js_includes errMsg ''Overload'')"

function attempt_loop :: "(nat \<Rightarrow> attempt_outcome) \<Rightarrow> string \<Rightarrow> nat \<Rightarrow> nat \<Rightarrow> nat list
    \<Rightarrow> ModelResult \<times> nat \<times> nat list" where
  "attempt_loop provider m retries attempt waits =
     (if attempt \<le> retries then
        (case try_attempt m (provider attempt) of
           Inr res \<Rightarrow> (res, attempt, waits)
         | Inl err \<Rightarrow>
             (if attempt = retries
              then (Failure m (if isOverload (err_message err)
                               then ''Server Overload (Max Retries)'' else formatError err),
                    attempt, waits)
              else attempt_loop provider m retries (attempt + 1)
                     (waits @ [if isOverload (err_message err) then 2000 * attempt
                               else 1000 * attempt])))
      else (Failure m ''Unknown error'', attempt - 1, waits))"
  by pat_completeness auto
termination
  by (relation "measure (\<lambda>(provider, m, retries, attempt, waits). Suc retries - attempt)") auto

definition callSingleModel :: "(nat \<Rightarrow> attempt_outcome) \<Rightarrow> string \<Rightarrow> nat
    \<Rightarrow> ModelResult \<times> nat \<times> nat list" where
  "callSingleModel provider m retries = attempt_loop provider m retries 1 []"

text \<open>
  \<^verbatim>\<open>callGeminiREST\<close>, the client of the REST variant
  (\<^verbatim>\<open>src/unnamed/part_000\<close>): without a key it returns at once, else it fetches once.
  The fetch throws, or answers with a status that is not ok and a text, or with a body
  whose first part has a text or none. The result comes with the number of fetches.
\<close>

datatype fetch_outcome =
  FetchThrows js_error
| NotOk nat string
| Body "string option"

definition callGeminiREST :: "string option \<Rightarrow> fetch_outcome \<Rightarrow> string \<Rightarrow> ModelResult \<times> nat" where
  "callGeminiREST apiKey fetched m =
     (if apiKey = None \<or> apiKey = Some [] then (Failure m ''Missing API Key'', 0)
      else
        (case fetched of
           FetchThrows e \<Rightarrow>
             (if err_name e = ''AbortError'' then (Failure m ''Timeout (15s limit)'', 1)
              else (Failure m (err_message e), 1))
         | NotOk status errText \<Rightarrow>
             (Failure m (''API Error '' @ show_nat status @ '': '' @ errText), 1)
         | Body t \<Rightarrow>
             (case t of
                None \<Rightarrow> (Success m [] 0 [], 1)
              | Some txt \<Rightarrow> (Success m txt 0 txt, 1))))"

text \<open>
  The round of the ensemble with \<^verbatim>\<open>callSingleModel\<close> in the place of its parameter: every
  model is called with the default of three attempts, against what the providers do.
\<close>

definition call_with :: "(string \<Rightarrow> string \<Rightarrow> string option \<Rightarrow> nat \<Rightarrow> attempt_outcome)
    \<Rightarrow> string \<Rightarrow> string \<Rightarrow> string option \<Rightarrow> ModelResult" where
  "call_with providers m prompt imageBase64 =
     fst (callSingleModel (providers m prompt imageBase64) m 3)"

section \<open>The ensemble: three workers, then the judge\<close>

text \<open>
  \<^verbatim>\<open>normalize\<close>, the local function of \<^verbatim>\<open>callGeminiEnsemble\<close>. Its true/false branch
  is \<open>true_false_letter\<close>: for a question with two options of which one reads true or
  false, the letter A or B becomes the literal of the option that has this label.
\<close>

definition has_label :: "QuestionOption option \<Rightarrow> string \<Rightarrow> bool" where
  "has_label opt l = (case opt of None \<Rightarrow> False | Some o' \<Rightarrow> opt_label o' = l)"

definition true_false_letter :: "string \<Rightarrow> QuestionOption list \<Rightarrow> string option" where
  "true_false_letter a opts =
     (if length opts = 2 then
        (let optTexts = map (\<lambda>o'. trim (toLowerCase (opt_text o'))) opts;
             isTrueFalseQuestion = (''true'' \<in> set optTexts \<or> ''false'' \<in> set optTexts)
         in if isTrueFalseQuestion then
              (let trueOpt = find (\<lambda>o'. trim (toLowerCase (opt_text o')) = ''true'') opts;
                   falseOpt = find (\<lambda>o'. trim (toLowerCase (opt_text o')) = ''false'') opts
               in if a = ''A'' \<and> has_label trueOpt ''A'' then Some ''true''
                  else if a = ''A'' \<and> has_label falseOpt ''A'' then Some ''false''
                  else if a = ''B'' \<and> has_label trueOpt ''B'' then Some ''true''
                  else if a = ''B'' \<and> has_label falseOpt ''B'' then Some ''false''
                  else None)
            else None)
      else None)"

definition normalize :: "string \<Rightarrow> QuestionOption list \<Rightarrow> string" where
  "normalize ans opts =
     (if ans = [] then []
      else
        (let a = toUpperCase (trim ans)
         in if toUpperCase a = ''TRUE'' then ''true''
            else if toUpperCase a = ''FALSE'' then ''false''
            else
              (case true_false_letter a opts of
                 Some lit \<Rightarrow> lit
               | None \<Rightarrow>
                   (let letters = letters_AF a
                    in if letters \<noteq> [] then letter_set_string letters
                       else
                         (case find (\<lambda>o'. opt_text o' \<noteq> []
                                 \<and> toLowerCase (trim (opt_text o')) = toLowerCase a) opts of
                            Some exact \<Rightarrow> opt_label exact
                          | None \<Rightarrow> a)))))"

text \<open>
  One step of the tally, for a key \<open>ans\<close> that is not the name of an inherited member:
  \<^verbatim>\<open>if (!voteCounts[ans]) voteCounts[ans] = {count: 0, ...}\<close>, then the count, the total
  confidence and the models of that key are updated in place.
\<close>

fun add_vote :: "(string \<times> vote_data) list \<Rightarrow> string \<Rightarrow> int \<Rightarrow> string
    \<Rightarrow> (string \<times> vote_data) list" where
  "add_vote [] ans conf m = [(ans, \<lparr>count = 1, totalConfidence = conf, models = [m]\<rparr>)]"
| "add_vote ((k, d) # rest) ans conf m =
     (if k = ans
      then (k, \<lparr>count = count d + 1, totalConfidence = totalConfidence d + conf,
                models = models d @ [m]\<rparr>) # rest
      else (k, d) # add_vote rest ans conf m)"

text \<open>
  The callback of \<^verbatim>\<open>results.forEach\<close>. When the normalized answer is the name of an
  inherited member, \<^verbatim>\<open>!voteCounts[ans]\<close> is false, no entry is made, and
  \<^verbatim>\<open>voteCounts[ans].models.push(r.model)\<close> reads \<^verbatim>\<open>push\<close> of \<^verbatim>\<open>undefined\<close>: the
  \<^verbatim>\<open>TypeError\<close> ends the loop and the round (\<open>Inl\<close> of its message).
\<close>

definition type_error :: string where
  "type_error = ''Cannot read properties of undefined (reading 'push')''"

definition count_vote :: "QuestionOption list \<Rightarrow> (string \<times> vote_data) list \<Rightarrow> ModelResult
    \<Rightarrow> string + (string \<times> vote_data) list" where
  "count_vote opts voteCounts r =
     (case r of
        Failure m e \<Rightarrow> Inr voteCounts
      | Success m a c rw \<Rightarrow>
          (if normalize a opts \<noteq> [] then
             (if normalize a opts \<in> set inherited_members then Inl type_error
              else Inr (add_vote voteCounts (normalize a opts) c m))
           else Inr voteCounts))"

fun for_each :: "('s \<Rightarrow> 'a \<Rightarrow> string + 's) \<Rightarrow> 's \<Rightarrow> 'a list \<Rightarrow> string + 's" where
  "for_each f s [] = Inr s"
| "for_each f s (x # xs) = (case f s x of Inl err \<Rightarrow> Inl err | Inr s' \<Rightarrow> for_each f s' xs)"

definition to_entry :: "string \<times> vote_data \<Rightarrow> vote_entry" where
  "to_entry kv =
     \<lparr>v_answer = fst kv, v_count = count (snd kv),
      v_avgConfidence = round_div (totalConfidence (snd kv)) (count (snd kv)),
      v_models = models (snd kv)\<rparr>"

definition vote_order :: "vote_entry \<Rightarrow> vote_entry \<Rightarrow> int" where
  "vote_order a b =
     (if v_count b \<noteq> v_count a then int (v_count b) - int (v_count a)
      else v_avgConfidence b - v_avgConfidence a)"

definition sorted_votes :: "(string \<times> vote_data) list \<Rightarrow> vote_entry list" where
  "sorted_votes voteCounts = js_sort vote_order (map to_entry (object_entries voteCounts))"

definition confidence_order :: "ModelResult \<Rightarrow> ModelResult \<Rightarrow> int" where
  "confidence_order a b = confidence b - confidence a"

text \<open>
  \<^verbatim>\<open>callGeminiEnsemble\<close>. The parameter \<open>callModel\<close> is what
  \<^verbatim>\<open>callSingleModel(model, prompt, imageBase64)\<close> returns in this round; the judge is
  asked only when no answer has two votes. A thrown error is \<open>Inl\<close> of its message.
\<close>

definition judge_phase :: "(string \<Rightarrow> string \<Rightarrow> string option \<Rightarrow> ModelResult) \<Rightarrow> string
    \<Rightarrow> string option \<Rightarrow> ModelResult list \<Rightarrow> string + VotingResult" where
  "judge_phase callModel prompt imageBase64 results =
     (case callModel (MODELS ! 3) prompt imageBase64 of
        Success m a c rw \<Rightarrow>
          Inr \<lparr>finalAnswer = a, finalConfidence = c, votes = None, modelAnswers = None,
               method_used = ''judge''\<rparr>
      | Failure m e \<Rightarrow>
          (case js_sort confidence_order (filter success results) of
             best # rest \<Rightarrow>
               Inr \<lparr>finalAnswer = answer best, finalConfidence = confidence best,
                    votes = None, modelAnswers = None, method_used = ''fallback_worker''\<rparr>
           | [] \<Rightarrow> Inl ''All models failed including Judge''))"

definition callGeminiEnsemble :: "(string \<Rightarrow> string \<Rightarrow> string option \<Rightarrow> ModelResult) \<Rightarrow> string
    \<Rightarrow> QuestionOption list \<Rightarrow> string option \<Rightarrow> string + VotingResult" where
  "callGeminiEnsemble callModel prompt opts imageBase64 =
     (let workers = [MODELS ! 0, MODELS ! 1, MODELS ! 2];
          results = map (\<lambda>m. callModel m prompt imageBase64) workers
      in case for_each (count_vote opts) [] results of
           Inl err \<Rightarrow> Inl err
         | Inr voteCounts \<Rightarrow>
             (case sorted_votes voteCounts of
                topVote # rest \<Rightarrow>
                  (if 2 \<le> v_count topVote
                   then Inr \<lparr>finalAnswer = v_answer topVote,
                             finalConfidence = v_avgConfidence topVote,
                             votes = None, modelAnswers = None,
                             method_used = (if v_count topVote = 3 then ''unanimous''
                                            else ''majority'')\<rparr>
                   else judge_phase callModel prompt imageBase64 results)
              | [] \<Rightarrow> judge_phase callModel prompt imageBase64 results))"

section \<open>The confidence-weighted vote\<close>

text \<open>
  \<^verbatim>\<open>normalizeAnswer\<close>: the labels of an answer. \<^verbatim>\<open>split(/[\s,]+/)\<close> cuts the text at every
  run of white space and commas (a run at either end leaves an empty piece there), and
  \<^verbatim>\<open>/^[A-Z]$/\<close> keeps the pieces that are one capital letter.
\<close>

fun split_runs :: "(char \<Rightarrow> bool) \<Rightarrow> string \<Rightarrow> bool \<Rightarrow> string \<Rightarrow> string list" where
  "split_runs sep cur in_sep [] = [rev cur]"
| "split_runs sep cur in_sep (c # cs) =
     (if sep c
      then (if in_sep then split_runs sep cur True cs
            else rev cur # split_runs sep [] True cs)
      else split_runs sep (c # cur) False cs)"

definition split_space_comma :: "string \<Rightarrow> string list" where
  "split_space_comma s = split_runs (\<lambda>c. is_space c \<or> c = CHR '','') [] False s"

definition is_capital :: "string \<Rightarrow> bool" where
  "is_capital s = (case s of [c] \<Rightarrow> c \<in> set ''ABCDEFGHIJKLMNOPQRSTUVWXYZ'' | _ \<Rightarrow> False)"

definition normalizeAnswer :: "string \<Rightarrow> string list" where
  "normalizeAnswer ans =
     (if ans = [] then []
      else
        (let upperAnswer = trim (toUpperCase ans)
         in if upperAnswer = ''TRUE'' \<or> upperAnswer = ''FALSE'' then [toLowerCase upperAnswer]
            else
              (let labels = filter is_capital (map trim (split_space_comma upperAnswer))
               in sort_key (\<lambda>s. of_char (hd s) :: nat) (js_dedupe labels))))"

text \<open>
  \<^verbatim>\<open>_confidenceWeightedVote\<close> (the name cannot start with an underscore here). Step 1 maps
  every successful result to itself with the flag \<^verbatim>\<open>unreliable\<close>, its confidence cut to
  40 when its answer has four labels or more; step 2 tallies the answers, upper-cased and
  trimmed (a key in capitals is never the name of an inherited member); step 3 decides.
  The object \<^verbatim>\<open>votes\<close> is filled in the order of the ranking, and is here the list of its
  entries as \<^verbatim>\<open>Object.entries\<close> gives them. The mark that the summary appends to the
  model of an unreliable result is a space and the warning sign U+26A0 U+FE0F, here in
  UTF-8.
\<close>

definition warning_mark :: string where
  "warning_mark = [CHR '' '', CHR 0xE2, CHR 0x9A, CHR 0xA0, CHR 0xEF, CHR 0xB8, CHR 0x8F]"

definition penalize :: "ModelResult \<Rightarrow> ModelResult \<times> bool" where
  "penalize r =
     (case r of
        Success m a c rw \<Rightarrow>
          (if 4 \<le> length (normalizeAnswer a) then (Success m a (min c 40) rw, True)
           else (r, False))
      | Failure m e \<Rightarrow> (r, False))"

definition count_answer :: "(string \<times> vote_data) list \<Rightarrow> ModelResult \<times> bool
    \<Rightarrow> (string \<times> vote_data) list" where
  "count_answer answerCounts ru =
     (case fst ru of
        Success m a c rw \<Rightarrow> add_vote answerCounts (trim (toUpperCase a)) c m
      | Failure m e \<Rightarrow> answerCounts)"

definition pick_reliable :: "string \<Rightarrow> (ModelResult \<times> bool) list \<Rightarrow> (ModelResult \<times> bool) option" where
  "pick_reliable m reliableResults = find (\<lambda>ru. model (fst ru) = m \<and> \<not> snd ru) reliableResults"

definition higher :: "ModelResult \<times> bool \<Rightarrow> ModelResult \<times> bool \<Rightarrow> ModelResult \<times> bool" where
  "higher a b = (if confidence (fst a) > confidence (fst b) then a else b)"

definition decide :: "vote_entry list \<Rightarrow> (ModelResult \<times> bool) list
    \<Rightarrow> string + string \<times> int \<times> string" where
  "decide sortedAnswers reliableResults =
     (case (case sortedAnswers of [] \<Rightarrow> None
            | topAnswer # rest \<Rightarrow> if 2 \<le> v_count topAnswer then Some topAnswer else None) of
        Some topAnswer \<Rightarrow> Inr (v_answer topAnswer, v_avgConfidence topAnswer, ''consensus'')
      | None \<Rightarrow>
          (case pick_reliable (MODELS ! 0) reliableResults of
             Some primaryResult \<Rightarrow>
               Inr (answer (fst primaryResult), confidence (fst primaryResult), ''primary'')
           | None \<Rightarrow>
               (case pick_reliable (MODELS ! 1) reliableResults of
                  Some secondaryResult \<Rightarrow>
                    Inr (answer (fst secondaryResult), confidence (fst secondaryResult),
                         ''secondary'')
                | None \<Rightarrow>
                    (case reliableResults of
                       [] \<Rightarrow> Inl ''Reduce of empty array with no initial value''
                     | first # others \<Rightarrow>
                         (let best = foldl higher first others
                          in Inr (answer (fst best), confidence (fst best), ''fallback''))))))"

definition confidenceWeightedVote :: "ModelResult list \<Rightarrow> string + VotingResult" where
  "confidenceWeightedVote modelResults =
     (case filter success modelResults of
        [] \<Rightarrow> Inl ''All models failed in ensemble''
      | [r] \<Rightarrow>
          Inr \<lparr>finalAnswer = answer r, finalConfidence = confidence r,
               votes = Some [(answer r, 1, confidence r)],
               modelAnswers = Some [(model r, answer r, confidence r)],
               method_used = ''single''\<rparr>
      | successfulResults \<Rightarrow>
          (let reliableResults = map penalize successfulResults;
               answerCounts = foldl count_answer [] reliableResults;
               sortedAnswers = sorted_votes answerCounts
           in case decide sortedAnswers reliableResults of
                Inl err \<Rightarrow> Inl err
              | Inr decision \<Rightarrow>
                  Inr \<lparr>finalAnswer = fst decision, finalConfidence = fst (snd decision),
                       votes = Some (object_entries
                                      (map (\<lambda>a. (v_answer a, v_count a, v_avgConfidence a))
                                         sortedAnswers)),
                       modelAnswers =
                         Some (map (\<lambda>ru. (model (fst ru) @ (if snd ru then warning_mark else []),
                                           answer (fst ru), confidence (fst ru)))
                                 reliableResults),
                       method_used = snd (snd decision)\<rparr>))"

section \<open>The prompt builder\<close>

text \<open>
  The input of \<^verbatim>\<open>buildPrompt\<close> is a string or a \<^verbatim>\<open>QuestionInput\<close>, whose fields
  \<^verbatim>\<open>options\<close>, \<^verbatim>\<open>type\<close>, \<^verbatim>\<open>number\<close> and \<^verbatim>\<open>image\<close> are optional. For a string the
  function returns the template below as it stands: the template has no place for the
  input.
\<close>

record QuestionInput =
  q_question :: string
  q_options :: "QuestionOption list option"
  q_type :: "string option"
  q_number :: "int option"
  q_image :: "string option"

datatype prompt_input = Text string | Question QuestionInput

definition line :: "string \<Rightarrow> string" where
  "line s = s @ [CHR 0x0A]"

definition deep_thinking_template :: string where
  \<open>deep_thinking_template =
     line ''You are a MikroTik certification exam expert operating in "DEEP THINKING MODE".''
     @ line ''''
     @ line ''PROTOCOL:''
     @ line ''1.  **Analyze**: Read the question and every single option carefully.''
     @ line ''2.  **Evaluate**: For EACH option, write a detailed explanation why it is correct or incorrect.''
     @ line ''3.  **Reasoning**: You MUST provide thorough reasoning (at least 5-10 sentences). Do NOT be lazy.''
     @ line ''4.  **Conclusion**: Final Answer must be determined only after analysis.''
     @ line ''''
     @ line ''FORMAT:''
     @ line ''Reasoning:''
     @ line ''[Your detailed step-by-step analysis here...]''
     @ line ''''
     @ line ''JSON:''
     @ line ''{"answer": "A", "confidence": 95}''\<close>

definition instructions :: string where
  \<open>instructions =
     line ''You are a MikroTik certification exam expert.'' @ line ''''
     @ line ''Goal: Provide the most accurate answer based on deep technical reasoning.''
     @ line ''''
     @ line ''INSTRUCTIONS:''
     @ line ''1. Analyze the Question: Identify key constraints (e.g., "invalid", "not", "public IP").''
     @ line ''2. Analyze Options: Evaluate each option's technical validity.''
     @ line ''3. Chain of Thought: Explain your step-by-step reasoning.''
     @ line ''4. Final Output: Return the answer in strictly valid JSON.'' @ line ''''\<close>

definition option_line :: "QuestionOption \<Rightarrow> string" where
  "option_line opt = line (opt_label opt @ ''. '' @ opt_text opt)"

definition type_line :: "string option \<Rightarrow> string" where
  "type_line t =
     (if t = Some ''checkbox'' then line '''' @ line ''Type: CHECKBOX (select ALL correct answers)''
      else if t = Some ''select'' then line '''' @ line ''Type: TRUE/FALSE''
      else line '''' @ line ''Type: SINGLE CHOICE'')"

definition output_format :: string where
  \<open>output_format =
     line '''' @ line ''Output Format:''
     @ line ''First, write your "Reasoning: ..." block.''
     @ line ''Then, write "JSON: {"answer": "...", "confidence": ...}" on a new line.''\<close>

definition image_note :: string where
  "image_note =
     line '''' @ line ''[IMAGE DETECTED] An image is provided with this question. Analyze the image carefully.''"

definition has_image :: "QuestionInput \<Rightarrow> bool" where
  "has_image q = (case q_image q of None \<Rightarrow> False | Some i \<Rightarrow> i \<noteq> [])"

definition buildPrompt :: "prompt_input \<Rightarrow> string" where
  "buildPrompt input =
     (case input of
        Text s \<Rightarrow> deep_thinking_template
      | Question q \<Rightarrow>
          instructions
          @ line (''Question: '' @ q_question q)
          @ (case q_options q of
               None \<Rightarrow> []
             | Some opts \<Rightarrow>
                 (if opts \<noteq> []
                  then line ''Options:'' @ concat (map option_line opts) @ type_line (q_type q)
                  else []))
          @ output_format
          @ (if has_image q then image_note else []))"

section \<open>The answer cache and the request\<close>

text \<open>
  The state of the server: the cache \<^verbatim>\<open>recentAnswers\<close>, a \<^verbatim>\<open>Map\<close> from keys to an
  answer and the time it was stored, and \<^verbatim>\<open>requestCounter\<close>. \<^verbatim>\<open>vacuum\<close> deletes the
  entries older than \<^verbatim>\<open>TTL_MS\<close> at the time \<open>now\<close> it reads from the clock.
\<close>

record cache_entry =
  c_answer :: string
  ts :: int

record server_state =
  recentAnswers :: "string \<Rightarrow> cache_entry option"
  requestCounter :: nat

definition ENSEMBLE_MODE :: bool where
  "ENSEMBLE_MODE = True"

definition vacuum :: "int \<Rightarrow> server_state \<Rightarrow> server_state" where
  "vacuum now st =
     st\<lparr>recentAnswers :=
          (\<lambda>k. case recentAnswers st k of
                 None \<Rightarrow> None
               | Some v \<Rightarrow> if now - ts v > TTL_MS then None else Some v)\<rparr>"

text \<open>\<^verbatim>\<open>callGeminiWithFailover\<close>: the first model of \<^verbatim>\<open>MODELS\<close> that succeeds.\<close>

definition callGeminiWithFailover :: "(string \<Rightarrow> string \<Rightarrow> string option \<Rightarrow> ModelResult)
    \<Rightarrow> string \<Rightarrow> string option \<Rightarrow> string + string \<times> string \<times> int" where
  "callGeminiWithFailover callModel prompt imageBase64 =
     (case find (\<lambda>m. success (callModel m prompt imageBase64)) MODELS of
        Some m \<Rightarrow>
          Inr (answer (callModel m prompt imageBase64), m,
               confidence (callModel m prompt imageBase64))
      | None \<Rightarrow> Inl ''All models failed'')"

text \<open>
  \<^verbatim>\<open>processRequestDirectly\<close>. It counts the request, builds the prompt, runs the round
  and, when the round returned, stores the answer under the key with the time
  \<open>now_store\<close>; \<open>now_done\<close> is the clock reading of the duration. An error of the round is
  thrown on (\<open>Inl\<close>), past the line that stores.
\<close>

definition options_of :: "prompt_input \<Rightarrow> QuestionOption list" where
  "options_of rawPrompt =
     (case rawPrompt of
        Text s \<Rightarrow> []
      | Question q \<Rightarrow> (case q_options q of None \<Rightarrow> [] | Some opts \<Rightarrow> opts))"

definition image_of :: "prompt_input \<Rightarrow> string option" where
  "image_of rawPrompt =
     (case rawPrompt of
        Text s \<Rightarrow> None
      | Question q \<Rightarrow> (if has_image q then q_image q else None))"

definition processRequestDirectly :: "(string \<Rightarrow> string \<Rightarrow> string option \<Rightarrow> ModelResult)
    \<Rightarrow> int \<Rightarrow> int \<Rightarrow> string \<Rightarrow> prompt_input \<Rightarrow> int \<Rightarrow> server_state
    \<Rightarrow> (string + string \<times> int \<times> int) \<times> server_state" where
  "processRequestDirectly callModel now_done now_store key rawPrompt startTime st =
     (let st1 = st\<lparr>requestCounter := requestCounter st + 1\<rparr>;
          prompt = buildPrompt rawPrompt;
          opts = options_of rawPrompt;
          img = image_of rawPrompt;
          outcome =
            (if ENSEMBLE_MODE
             then (case callGeminiEnsemble callModel prompt opts img of
                     Inl err \<Rightarrow> Inl err
                   | Inr voting \<Rightarrow> Inr (finalAnswer voting, finalConfidence voting))
             else (case callGeminiWithFailover callModel prompt img of
                     Inl err \<Rightarrow> Inl err
                   | Inr res \<Rightarrow> Inr (fst res, snd (snd res))))
      in case outcome of
           Inl err \<Rightarrow> (Inl err, st1)
         | Inr ac \<Rightarrow>
             (Inr (fst ac, now_done - startTime, snd ac),
              st1\<lparr>recentAnswers :=
                    (recentAnswers st1)(key \<mapsto> \<lparr>c_answer = fst ac, ts = now_store\<rparr>)\<rparr>))"

text \<open>
  The route \<^verbatim>\<open>POST /ask\<close> of \<^verbatim>\<open>handler\<close>, from the point where the key of the request
  is known (the key is \<^verbatim>\<open>normalizePrompt\<close> of the question, with the options serialized
  after it). The five readings of \<^verbatim>\<open>Date.now()\<close> that a request makes are the fields
  of \<open>clock\<close>. The responses are the cached answer, the fresh answer with its duration and
  confidence, and the status 400 with the message of the error.
\<close>

record clock =
  t_vacuum :: int
  t_lookup :: int
  t_start :: int
  t_done :: int
  t_store :: int

datatype ask_response =
  Cached string
| Answered string int int
| BadRequest string

definition fresh_round :: "(string \<Rightarrow> string \<Rightarrow> string option \<Rightarrow> ModelResult) \<Rightarrow> clock
    \<Rightarrow> string \<Rightarrow> prompt_input \<Rightarrow> server_state \<Rightarrow> ask_response \<times> server_state" where
  "fresh_round callModel clk key rawPrompt st =
     (case processRequestDirectly callModel (t_done clk) (t_store clk) key rawPrompt
             (t_start clk) st of
        (Inr res, st') \<Rightarrow> (Answered (fst res) (fst (snd res)) (snd (snd res)), st')
      | (Inl msg, st') \<Rightarrow> (BadRequest (if msg = [] then ''Invalid JSON'' else msg), st'))"

definition cache_hit :: "clock \<Rightarrow> string \<Rightarrow> server_state \<Rightarrow> cache_entry option" where
  "cache_hit clk key st =
     (case recentAnswers st key of
        None \<Rightarrow> None
      | Some cached \<Rightarrow> if t_lookup clk - ts cached \<le> TTL_MS then Some cached else None)"

definition handler_ask :: "(string \<Rightarrow> string \<Rightarrow> string option \<Rightarrow> ModelResult) \<Rightarrow> clock
    \<Rightarrow> string \<Rightarrow> prompt_input \<Rightarrow> server_state \<Rightarrow> ask_response \<times> server_state" where
  "handler_ask callModel clk key rawPrompt st =
     (let st1 = vacuum (t_vacuum clk) st
      in case cache_hit clk key st1 of
           Some cached \<Rightarrow> (Cached (c_answer cached), st1)
         | None \<Rightarrow> fresh_round callModel clk key rawPrompt st1)"

section \<open>Notions used in the statements\<close>

text \<open>
  The workers that vote for a normalized answer \<open>k\<close> in a round of the ensemble, and the
  ballots (answer, confidence, model) that a tally counts.
\<close>

definition votes_for :: "QuestionOption list \<Rightarrow> string \<Rightarrow> ModelResult \<Rightarrow> bool" where
  "votes_for opts k r =
     (case r of Success m a c rw \<Rightarrow> normalize a opts = k | Failure m e \<Rightarrow> False)"

definition supporters :: "QuestionOption list \<Rightarrow> string \<Rightarrow> ModelResult list
    \<Rightarrow> ModelResult list" where
  "supporters opts k rs = filter (votes_for opts k) rs"

definition worker_results :: "(string \<Rightarrow> string \<Rightarrow> string option \<Rightarrow> ModelResult) \<Rightarrow> string
    \<Rightarrow> string option \<Rightarrow> ModelResult list" where
  "worker_results callModel prompt imageBase64 =
     map (\<lambda>m. callModel m prompt imageBase64) [MODELS ! 0, MODELS ! 1, MODELS ! 2]"

definition cast :: "(string \<times> vote_data) list \<Rightarrow> string \<times> int \<times> string
    \<Rightarrow> (string \<times> vote_data) list" where
  "cast T b = add_vote T (fst b) (fst (snd b)) (snd (snd b))"

definition data_of :: "string \<Rightarrow> (string \<times> int \<times> string) list \<Rightarrow> vote_data" where
  "data_of k bs =
     \<lparr>count = length (filter (\<lambda>b. fst b = k) bs),
      totalConfidence = sum_list (map (\<lambda>b. fst (snd b)) (filter (\<lambda>b. fst b = k) bs)),
      models = map (\<lambda>b. snd (snd b)) (filter (\<lambda>b. fst b = k) bs)\<rparr>"

definition ballot :: "QuestionOption list \<Rightarrow> ModelResult \<Rightarrow> (string \<times> int \<times> string) list" where
  "ballot opts r =
     (case r of
        Failure m e \<Rightarrow> []
      | Success m a c rw \<Rightarrow> (if normalize a opts \<noteq> [] then [(normalize a opts, c, m)] else []))"

text \<open>
  The rounds in which the tally goes through: no normalized answer of a worker is the name
  of an inherited member (\<open>inherited_key\<close>), which holds when no label of an option is
  one (\<open>plain_labels\<close>). \<open>count_plain\<close> is the step of the tally in such a round.
\<close>

definition inherited_key :: "QuestionOption list \<Rightarrow> ModelResult \<Rightarrow> bool" where
  "inherited_key opts r =
     (case r of Success m a c rw \<Rightarrow> normalize a opts \<in> set inherited_members
      | Failure m e \<Rightarrow> False)"

definition plain_labels :: "QuestionOption list \<Rightarrow> bool" where
  "plain_labels opts = list_all (\<lambda>o'. opt_label o' \<notin> set inherited_members) opts"

definition count_plain :: "QuestionOption list \<Rightarrow> (string \<times> vote_data) list \<Rightarrow> ModelResult
    \<Rightarrow> (string \<times> vote_data) list" where
  "count_plain opts voteCounts r =
     (case r of
        Failure m e \<Rightarrow> voteCounts
      | Success m a c rw \<Rightarrow>
          (if normalize a opts \<noteq> [] then add_vote voteCounts (normalize a opts) c m
           else voteCounts))"

text \<open>
  The rounds whose texts are ASCII: the texts of the options and the answers of the
  workers that succeeded. A result is reliable, in the words of
  \<^verbatim>\<open>_confidenceWeightedVote\<close>, when its answer has fewer than four labels.
\<close>

definition ascii_round :: "QuestionOption list \<Rightarrow> ModelResult list \<Rightarrow> bool" where
  "ascii_round opts rs =
     (list_all (\<lambda>o'. ascii (opt_text o')) opts
      \<and> list_all (\<lambda>r. case r of Success m a c rw \<Rightarrow> ascii a | Failure m e \<Rightarrow> True) rs)"

definition reliable :: "ModelResult \<Rightarrow> bool" where
  "reliable r =
     (case r of Success m a c rw \<Rightarrow> length (normalizeAnswer a) < 4 | Failure m e \<Rightarrow> True)"

text \<open>
  A round for the examples: the three workers and the judge answer \<open>r0\<close>, \<open>r1\<close>, \<open>r2\<close>
  and \<open>j\<close>.
\<close>

definition round_of :: "ModelResult \<Rightarrow> ModelResult \<Rightarrow> ModelResult \<Rightarrow> ModelResult
    \<Rightarrow> string \<Rightarrow> string \<Rightarrow> string option \<Rightarrow> ModelResult" where
  "round_of r0 r1 r2 j m prompt imageBase64 =
     (if m = MODELS ! 0 then r0 else if m = MODELS ! 1 then r1
      else if m = MODELS ! 2 then r2 else j)"

definition said :: "nat \<Rightarrow> string \<Rightarrow> int \<Rightarrow> ModelResult" where
  "said i a c = Success (MODELS ! i) a c a"

definition failed :: "nat \<Rightarrow> ModelResult" where
  "failed i = Failure (MODELS ! i) ''Server Overload (Max Retries)''"

text \<open>What a caller reads off a result: the answer, its confidence and the method.\<close>

definition summary :: "string + VotingResult \<Rightarrow> (string \<times> int \<times> string) option" where
  "summary res =
     (case res of Inl err \<Rightarrow> None
      | Inr v \<Rightarrow> Some (finalAnswer v, finalConfidence v, method_used v))"

section \<open>Normalized answers and inherited members\<close>

lemma inherited_not_Nil: "[] \<notin> set inherited_members"
  by code_simp

lemma upper_char_never_lower: "\<forall>c. upper_char c \<notin> set ''abcdefghijklmnopqrstuvwxyz''"
  by code_simp

lemma upper_char_not_lower: "upper_char c \<notin> set ''abcdefghijklmnopqrstuvwxyz''"
  using upper_char_never_lower by blast

lemma toUpperCase_no_lower:
  "c \<in> set (toUpperCase s) \<Longrightarrow> c \<notin> set ''abcdefghijklmnopqrstuvwxyz''"
  using upper_char_not_lower by (auto simp: toUpperCase_def)

lemma inherited_all_lower:
  "list_all (\<lambda>k. list_ex (\<lambda>c. c \<in> set ''abcdefghijklmnopqrstuvwxyz'') k) inherited_members"
  by code_simp

lemma inherited_has_lower:
  "k \<in> set inherited_members \<Longrightarrow> \<exists>c \<in> set k. c \<in> set ''abcdefghijklmnopqrstuvwxyz''"
  using inherited_all_lower unfolding list_all_iff list_ex_iff by blast

lemma toUpperCase_not_inherited: "toUpperCase s \<notin> set inherited_members"
  using inherited_has_lower [of "toUpperCase s"] toUpperCase_no_lower [of _ s] by blast

lemma join_chars: "set (join sep xs) \<subseteq> set sep \<union> \<Union> (set ` set xs)"
  by (induction sep xs rule: join.induct) auto

lemma letter_set_string_chars:
  "set (letter_set_string letters) \<subseteq> set '', '' \<union> set letters"
  using join_chars [of "'', ''" "map (\<lambda>c. [c]) (sort_key (of_char :: char \<Rightarrow> nat) (js_dedupe letters))"]
  by (auto simp: letter_set_string_def js_dedupe_def)

lemma letters_not_inherited: "letter_set_string (letters_AF a) \<notin> set inherited_members"
proof
  assume "letter_set_string (letters_AF a) \<in> set inherited_members"
  then obtain c where "c \<in> set (letter_set_string (letters_AF a))"
    and low: "c \<in> set ''abcdefghijklmnopqrstuvwxyz''"
    using inherited_has_lower by blast
  then have "c \<in> set '', '' \<union> set (letters_AF a)"
    using letter_set_string_chars by blast
  then have "c \<in> set '', '' \<union> set ''ABCDEF''"
    by (auto simp: letters_AF_def)
  with low show False by auto
qed

lemma literal_not_inherited:
  "''true'' \<notin> set inherited_members" "''false'' \<notin> set inherited_members"
  by code_simp+

lemma true_false_letter_literal:
  "true_false_letter a opts = Some lit \<Longrightarrow> lit = ''true'' \<or> lit = ''false''"
  by (auto simp: true_false_letter_def Let_def split: if_splits)

text \<open>
  A normalized answer that is the name of an inherited member is the label of an option
  whose text the answer repeats.
\<close>

lemma normalize_inherited:
  assumes "normalize ans opts \<in> set inherited_members"
  shows "\<exists>o' \<in> set opts. opt_label o' = normalize ans opts
    \<and> toLowerCase (trim (opt_text o')) = toLowerCase (toUpperCase (trim ans))
    \<and> toUpperCase (toUpperCase (trim ans)) \<noteq> ''TRUE''
    \<and> toUpperCase (toUpperCase (trim ans)) \<noteq> ''FALSE''"
proof -
  let ?a = "toUpperCase (trim ans)"
  from assms have ne: "ans \<noteq> []"
    using inherited_not_Nil by (auto simp: normalize_def)
  from assms ne have t: "toUpperCase ?a \<noteq> ''TRUE''" and f: "toUpperCase ?a \<noteq> ''FALSE''"
    using literal_not_inherited by (auto simp: normalize_def Let_def split: if_splits)
  have tf: "true_false_letter ?a opts = None"
  proof (cases "true_false_letter ?a opts")
    case (Some lit)
    then have "normalize ans opts = lit"
      using ne t f by (simp add: normalize_def Let_def)
    with Some assms show ?thesis
      using true_false_letter_literal [OF Some] literal_not_inherited by auto
  qed simp
  have nl: "letters_AF ?a = []"
  proof (rule ccontr)
    assume "letters_AF ?a \<noteq> []"
    then have "normalize ans opts = letter_set_string (letters_AF ?a)"
      using ne t f tf by (simp add: normalize_def Let_def)
    with assms show False using letters_not_inherited by simp
  qed
  let ?P = "\<lambda>o'. opt_text o' \<noteq> [] \<and> toLowerCase (trim (opt_text o')) = toLowerCase ?a"
  show ?thesis
  proof (cases "find ?P opts")
    case None
    then have "normalize ans opts = ?a"
      using ne t f tf nl by (simp add: normalize_def Let_def)
    with assms show ?thesis using toUpperCase_not_inherited by simp
  next
    case (Some exact)
    then have "normalize ans opts = opt_label exact"
      using ne t f tf nl by (simp add: normalize_def Let_def)
    moreover from Some have "exact \<in> set opts" "?P exact"
      by (auto simp: find_Some_iff in_set_conv_nth)
    ultimately show ?thesis using t f by auto
  qed
qed

lemma plain_labels_keys: "plain_labels opts \<Longrightarrow> \<not> inherited_key opts r"
proof (cases r)
  case (Success m a c rw)
  assume pl: "plain_labels opts"
  show ?thesis
  proof
    assume "inherited_key opts r"
    then have "normalize a opts \<in> set inherited_members"
      using Success by (simp add: inherited_key_def)
    from normalize_inherited [OF this] this pl show False
      by (auto simp: plain_labels_def list_all_iff)
  qed
qed (simp add: inherited_key_def)

lemma plain_labels_round: "plain_labels opts \<Longrightarrow> list_all (\<lambda>r. \<not> inherited_key opts r) rs"
  by (simp add: list_all_iff plain_labels_keys)
section \<open>The tally and the ranking\<close>

lemma MODELS_distinct: "distinct MODELS"
  by (simp add: MODELS_def)

lemma js_dedupe_snoc:
  "js_dedupe (xs @ [x]) = (if x \<in> set xs then js_dedupe xs else js_dedupe xs @ [x])"
  by (simp add: js_dedupe_def)

lemma js_dedupe_set: "set (js_dedupe xs) = set xs"
  by (simp add: js_dedupe_def)

lemma js_dedupe_distinct: "distinct (js_dedupe xs)"
  by (simp add: js_dedupe_def)

lemma add_vote_fresh:
  "a \<notin> set ks \<Longrightarrow>
   add_vote (map (\<lambda>k. (k, f k)) ks) a c m
     = map (\<lambda>k. (k, f k)) ks @ [(a, \<lparr>count = 1, totalConfidence = c, models = [m]\<rparr>)]"
  by (induction ks) auto

lemma add_vote_known:
  "a \<in> set ks \<Longrightarrow> distinct ks \<Longrightarrow>
   add_vote (map (\<lambda>k. (k, f k)) ks) a c m
     = map (\<lambda>k. (k, if k = a
                      then \<lparr>count = count (f k) + 1, totalConfidence = totalConfidence (f k) + c,
                            models = models (f k) @ [m]\<rparr>
                      else f k)) ks"
  by (induction ks) auto

lemma data_of_snoc:
  "data_of k (bs @ [b]) =
     (if fst b = k
      then \<lparr>count = count (data_of k bs) + 1,
            totalConfidence = totalConfidence (data_of k bs) + fst (snd b),
            models = models (data_of k bs) @ [snd (snd b)]\<rparr>
      else data_of k bs)"
  by (simp add: data_of_def)

lemma data_of_absent:
  "k \<notin> fst ` set bs \<Longrightarrow> data_of k bs = \<lparr>count = 0, totalConfidence = 0, models = []\<rparr>"
proof -
  assume "k \<notin> fst ` set bs"
  then have "filter (\<lambda>b. fst b = k) bs = []"
    by (auto simp: filter_empty_conv)
  then show ?thesis by (simp add: data_of_def)
qed

text \<open>The tally in closed form: the keys in the order of their first ballot.\<close>

lemma tally_closed_form:
  "foldl cast [] bs = map (\<lambda>k. (k, data_of k bs)) (js_dedupe (map fst bs))"
proof (induction bs rule: rev_induct)
  case Nil
  show ?case by (simp add: js_dedupe_def)
next
  case (snoc b bs)
  let ?ks = "js_dedupe (map fst bs)"
  show ?case
  proof (cases "fst b \<in> set (map fst bs)")
    case True
    then have "fst b \<in> set ?ks" by (simp add: js_dedupe_set)
    then have "add_vote (map (\<lambda>k. (k, data_of k bs)) ?ks) (fst b) (fst (snd b)) (snd (snd b))
        = map (\<lambda>k. (k, data_of k (bs @ [b]))) ?ks"
      by (simp add: add_vote_known js_dedupe_distinct data_of_snoc)
    with True snoc show ?thesis
      by (simp add: cast_def js_dedupe_snoc)
  next
    case False
    then have "fst b \<notin> set ?ks" by (simp add: js_dedupe_set)
    then have "add_vote (map (\<lambda>k. (k, data_of k bs)) ?ks) (fst b) (fst (snd b)) (snd (snd b))
        = map (\<lambda>k. (k, data_of k (bs @ [b]))) ?ks
          @ [(fst b, \<lparr>count = 1, totalConfidence = fst (snd b), models = [snd (snd b)]\<rparr>)]"
      using False by (auto simp: add_vote_fresh data_of_snoc js_dedupe_set)
    moreover have "data_of (fst b) (bs @ [b])
        = \<lparr>count = 1, totalConfidence = fst (snd b), models = [snd (snd b)]\<rparr>"
      using False by (simp add: data_of_snoc data_of_absent)
    ultimately show ?thesis
      using False snoc by (simp add: cast_def js_dedupe_snoc)
  qed
qed

lemma insert_by_set: "set (insert_by cmp x ys) = insert x (set ys)"
  by (induction ys) auto

lemma js_sort_set: "set (js_sort cmp xs) = set xs"
  by (induction xs) (simp_all add: js_sort_def insert_by_set)

lemma js_sort_Nil_iff: "js_sort cmp xs = [] \<longleftrightarrow> xs = []"
  using js_sort_set [of cmp xs] by (metis set_empty)

lemma object_entries_set: "set (object_entries obj) = set obj"
  by (auto simp: object_entries_def)

lemma sorted_votes_set:
  "set (sorted_votes (foldl cast [] bs)) = (\<lambda>k. to_entry (k, data_of k bs)) ` fst ` set bs"
  by (auto simp: sorted_votes_def js_sort_set object_entries_set tally_closed_form js_dedupe_set)

text \<open>The first entry of the ranking has the most votes.\<close>

lemma insert_by_most_votes:
  "list_all (\<lambda>y. v_count y \<le> v_count (hd ys)) ys \<Longrightarrow>
   list_all (\<lambda>y. v_count y \<le> v_count (hd (insert_by vote_order x ys)))
     (insert_by vote_order x ys)"
  by (cases ys) (auto simp: vote_order_def list_all_iff insert_by_set split: if_splits)

lemma js_sort_most_votes:
  "list_all (\<lambda>y. v_count y \<le> v_count (hd (js_sort vote_order xs))) (js_sort vote_order xs)"
  by (induction xs) (simp_all add: js_sort_def insert_by_most_votes)

lemma top_vote_most_votes:
  assumes "sorted_votes T = topv # rest" and "e \<in> set (sorted_votes T)"
  shows "v_count e \<le> v_count topv"
  using js_sort_most_votes [of "map to_entry (object_entries T)"] assms
  by (auto simp: sorted_votes_def list_all_iff)

section \<open>Ballots of the ensemble\<close>

lemma count_plain_cast: "count_plain opts T r = foldl cast T (ballot opts r)"
  by (cases r) (simp_all add: count_plain_def ballot_def cast_def)

lemma count_plains_cast:
  "foldl (count_plain opts) T rs = foldl cast T (concat (map (ballot opts) rs))"
  by (induction rs arbitrary: T) (simp_all add: count_plain_cast)

lemma ballots_for_key:
  "k \<noteq> [] \<Longrightarrow>
   filter (\<lambda>b. fst b = k) (concat (map (ballot opts) rs))
     = map (\<lambda>r. (k, confidence r, model r)) (supporters opts k rs)"
  by (induction rs)
    (auto simp: ballot_def supporters_def votes_for_def split: ModelResult.splits)

lemma ballot_key_nonempty: "b \<in> set (concat (map (ballot opts) rs)) \<Longrightarrow> fst b \<noteq> []"
  by (auto simp: ballot_def split: ModelResult.splits if_splits)

lemma key_iff_filter: "k \<in> fst ` set bs \<longleftrightarrow> filter (\<lambda>b. fst b = k) bs \<noteq> []"
  by (auto simp: filter_empty_conv)

lemma ballot_keys:
  "fst ` set (concat (map (ballot opts) rs)) = {k. k \<noteq> [] \<and> supporters opts k rs \<noteq> []}"
proof (rule set_eqI)
  fix k
  show "k \<in> fst ` set (concat (map (ballot opts) rs))
      \<longleftrightarrow> k \<in> {k. k \<noteq> [] \<and> supporters opts k rs \<noteq> []}"
  proof (cases "k = []")
    case True
    then show ?thesis using ballot_key_nonempty [of _ opts rs] by fastforce
  next
    case False
    then show ?thesis
      unfolding key_iff_filter by (simp add: ballots_for_key)
  qed
qed

lemma data_of_supporters:
  "k \<noteq> [] \<Longrightarrow>
   data_of k (concat (map (ballot opts) rs))
     = \<lparr>count = length (supporters opts k rs),
        totalConfidence = sum_list (map confidence (supporters opts k rs)),
        models = map model (supporters opts k rs)\<rparr>"
  by (simp add: data_of_def ballots_for_key comp_def)

lemma disjoint_filters_length:
  "(\<And>x. x \<in> set xs \<Longrightarrow> \<not> (P x \<and> Q x)) \<Longrightarrow>
   length (filter P xs) + length (filter Q xs) \<le> length xs"
  by (induction xs) auto

lemma supporters_disjoint:
  "k \<noteq> k' \<Longrightarrow> length (supporters opts k rs) + length (supporters opts k' rs) \<le> length rs"
  unfolding supporters_def
  by (rule disjoint_filters_length) (auto simp: votes_for_def split: ModelResult.splits)

text \<open>Every entry of the ensemble's ranking is the tally of a non-empty answer.\<close>

lemma ensemble_entry:
  assumes "e \<in> set (sorted_votes (foldl (count_plain opts) [] rs))"
  obtains k where "k \<noteq> []" and "supporters opts k rs \<noteq> []"
    and "e = \<lparr>v_answer = k, v_count = length (supporters opts k rs),
              v_avgConfidence = round_div (sum_list (map confidence (supporters opts k rs)))
                                  (length (supporters opts k rs)),
              v_models = map model (supporters opts k rs)\<rparr>"
proof -
  from assms obtain k where k: "k \<in> fst ` set (concat (map (ballot opts) rs))"
    and e: "e = to_entry (k, data_of k (concat (map (ballot opts) rs)))"
    unfolding count_plains_cast sorted_votes_set by blast
  from k have "k \<noteq> []" "supporters opts k rs \<noteq> []"
    unfolding ballot_keys by simp_all
  moreover from e \<open>k \<noteq> []\<close> have "e = \<lparr>v_answer = k, v_count = length (supporters opts k rs),
              v_avgConfidence = round_div (sum_list (map confidence (supporters opts k rs)))
                                  (length (supporters opts k rs)),
              v_models = map model (supporters opts k rs)\<rparr>"
    by (simp add: data_of_supporters to_entry_def)
  ultimately show thesis by (rule that)
qed

lemma ensemble_entry_of:
  assumes "k \<noteq> []" and "supporters opts k rs \<noteq> []"
  shows "\<lparr>v_answer = k, v_count = length (supporters opts k rs),
          v_avgConfidence = round_div (sum_list (map confidence (supporters opts k rs)))
                              (length (supporters opts k rs)),
          v_models = map model (supporters opts k rs)\<rparr>
         \<in> set (sorted_votes (foldl (count_plain opts) [] rs))"
proof -
  from assms have "k \<in> fst ` set (concat (map (ballot opts) rs))"
    unfolding ballot_keys by simp
  then have "to_entry (k, data_of k (concat (map (ballot opts) rs)))
      \<in> set (sorted_votes (foldl (count_plain opts) [] rs))"
    unfolding count_plains_cast sorted_votes_set by blast
  with assms(1) show ?thesis
    by (simp add: data_of_supporters to_entry_def)
qed

text \<open>With three workers, an answer with two votes is the first of the ranking.\<close>

lemma top_vote_of_majority:
  assumes k: "k \<noteq> []" and two: "2 \<le> length (supporters opts k rs)" and len: "length rs \<le> 3"
  shows "\<exists>rest. sorted_votes (foldl (count_plain opts) [] rs) =
           \<lparr>v_answer = k, v_count = length (supporters opts k rs),
            v_avgConfidence = round_div (sum_list (map confidence (supporters opts k rs)))
                                (length (supporters opts k rs)),
            v_models = map model (supporters opts k rs)\<rparr> # rest"
proof -
  let ?S = "sorted_votes (foldl (count_plain opts) [] rs)"
  let ?e = "\<lparr>v_answer = k, v_count = length (supporters opts k rs),
            v_avgConfidence = round_div (sum_list (map confidence (supporters opts k rs)))
                                (length (supporters opts k rs)),
            v_models = map model (supporters opts k rs)\<rparr>"
  from two have "supporters opts k rs \<noteq> []" by auto
  with k have inS: "?e \<in> set ?S" by (rule ensemble_entry_of)
  then obtain topv rest where S: "?S = topv # rest" by (cases ?S) auto
  from S inS have "v_count ?e \<le> v_count topv" by (rule top_vote_most_votes)
  with two have top2: "2 \<le> v_count topv" by simp
  have "topv \<in> set ?S" using S by simp
  then obtain k' where k': "k' \<noteq> []"
    and topv: "topv = \<lparr>v_answer = k', v_count = length (supporters opts k' rs),
              v_avgConfidence = round_div (sum_list (map confidence (supporters opts k' rs)))
                                  (length (supporters opts k' rs)),
              v_models = map model (supporters opts k' rs)\<rparr>"
    by (rule ensemble_entry)
  have "k' = k"
  proof (rule ccontr)
    assume "k' \<noteq> k"
    then have "length (supporters opts k rs) + length (supporters opts k' rs) \<le> length rs"
      using supporters_disjoint [of k k' opts rs] by simp
    moreover have "2 \<le> length (supporters opts k' rs)"
      using top2 topv by simp
    ultimately show False using two len by simp
  qed
  with topv S show ?thesis by simp
qed

text \<open>A round without inherited keys is tallied to the end.\<close>

lemma for_each_plain:
  "list_all (\<lambda>r. \<not> inherited_key opts r) rs \<Longrightarrow>
   for_each (count_vote opts) T rs = Inr (foldl (count_plain opts) T rs)"
  by (induction rs arbitrary: T)
    (auto simp: count_vote_def count_plain_def inherited_key_def split: ModelResult.splits)

lemma for_each_throws:
  "list_ex (inherited_key opts) rs \<Longrightarrow> for_each (count_vote opts) T rs = Inl type_error"
  by (induction rs arbitrary: T)
    (auto simp: count_vote_def inherited_key_def inherited_not_Nil split: ModelResult.splits)

lemma ensemble_majority:
  assumes "k \<noteq> []"
    and "2 \<le> length (supporters opts k (worker_results callModel prompt img))"
    and "list_all (\<lambda>r. \<not> inherited_key opts r) (worker_results callModel prompt img)"
  shows "callGeminiEnsemble callModel prompt opts img =
    Inr \<lparr>finalAnswer = k,
         finalConfidence =
           round_div (sum_list (map confidence
                        (supporters opts k (worker_results callModel prompt img))))
             (length (supporters opts k (worker_results callModel prompt img))),
         votes = None, modelAnswers = None,
         method_used =
           (if length (supporters opts k (worker_results callModel prompt img)) = 3
            then ''unanimous'' else ''majority'')\<rparr>"
proof -
  let ?rs = "worker_results callModel prompt img"
  have tally: "for_each (count_vote opts) [] ?rs = Inr (foldl (count_plain opts) [] ?rs)"
    using assms(3) by (rule for_each_plain)
  have "length ?rs \<le> 3" by (simp add: worker_results_def)
  from top_vote_of_majority [OF assms(1) assms(2) this]
  obtain rest where "sorted_votes (foldl (count_plain opts) [] ?rs) =
           \<lparr>v_answer = k, v_count = length (supporters opts k ?rs),
            v_avgConfidence = round_div (sum_list (map confidence (supporters opts k ?rs)))
                                (length (supporters opts k ?rs)),
            v_models = map model (supporters opts k ?rs)\<rparr> # rest" by blast
  with assms(2) tally show ?thesis
    by (simp add: callGeminiEnsemble_def Let_def worker_results_def)
qed
section \<open>The ensemble: majority and exhaustion\<close>

text \<open>
  In a round whose option labels are not names of inherited members and whose texts are
  ASCII, a normalized answer \<open>k\<close> with the votes of two or more of the three workers is
  returned, with the rounded mean of the confidences of the workers that voted for it,
  and the method unanimous when all three voted for it, majority otherwise.
\<close>

lemma majority_of_plain_round:
  assumes "k \<noteq> []"
    and "2 \<le> length (supporters opts k (worker_results callModel prompt img))"
    and "plain_labels opts"
    and "ascii_round opts (worker_results callModel prompt img)"
  shows "callGeminiEnsemble callModel prompt opts img =
    Inr \<lparr>finalAnswer = k,
         finalConfidence =
           round_div (sum_list (map confidence
                        (supporters opts k (worker_results callModel prompt img))))
             (length (supporters opts k (worker_results callModel prompt img))),
         votes = None, modelAnswers = None,
         method_used =
           (if length (supporters opts k (worker_results callModel prompt img)) = 3
            then ''unanimous'' else ''majority'')\<rparr>"
  using assms(1,2) plain_labels_round [OF assms(3)] by (rule ensemble_majority)

text \<open>
  C1. The question has the options \<open>8291\<close>, labelled \<open>constructor\<close>, and \<open>8080\<close>,
  labelled \<open>B\<close>. Two workers answer B (90 and 80) and the third answers \<open>8291\<close> (70), the
  text of the first option, which \<^verbatim>\<open>normalize\<close> turns into the label of that option. B has two votes of three, but the
  tally of the third vote throws and the round ends in the \<^verbatim>\<open>TypeError\<close>; so does the
  round in which two workers answer \<open>8291\<close>. With the label \<open>A\<close> in the place of
  \<open>constructor\<close> the same answers give B, by majority, with the confidence 85, as does the
  round of A (90), A (80) and B (70) give A.
\<close>

theorem majority_lost_on_inherited_label:
  \<open>parseAnswerWithConfidence (Some ''{"answer": "8291", "confidence": 70}'') = (''8291'', 70)
   \<and> normalize ''8291'' [\<lparr>opt_label = ''constructor'', opt_text = ''8291''\<rparr>,
                         \<lparr>opt_label = ''B'', opt_text = ''8080''\<rparr>] = ''constructor''
   \<and> supporters [\<lparr>opt_label = ''constructor'', opt_text = ''8291''\<rparr>,
               \<lparr>opt_label = ''B'', opt_text = ''8080''\<rparr>] ''B''
     (worker_results (round_of (said 0 ''B'' 90) (said 1 ''B'' 80) (said 2 ''8291'' 70) (failed 3))
        ''Q'' None) = [said 0 ''B'' 90, said 1 ''B'' 80]
   \<and> callGeminiEnsemble
       (round_of (said 0 ''B'' 90) (said 1 ''B'' 80) (said 2 ''8291'' 70) (failed 3)) ''Q''
       [\<lparr>opt_label = ''constructor'', opt_text = ''8291''\<rparr>,
        \<lparr>opt_label = ''B'', opt_text = ''8080''\<rparr>] None = Inl type_error
   \<and> callGeminiEnsemble
       (round_of (said 0 ''8291'' 90) (said 1 ''8291'' 80) (said 2 ''B'' 70) (failed 3)) ''Q''
       [\<lparr>opt_label = ''constructor'', opt_text = ''8291''\<rparr>,
        \<lparr>opt_label = ''B'', opt_text = ''8080''\<rparr>] None = Inl type_error
   \<and> summary (callGeminiEnsemble
       (round_of (said 0 ''B'' 90) (said 1 ''B'' 80) (said 2 ''8291'' 70) (failed 3)) ''Q''
       [\<lparr>opt_label = ''A'', opt_text = ''8291''\<rparr>,
        \<lparr>opt_label = ''B'', opt_text = ''8080''\<rparr>] None) = Some (''B'', 85, ''majority'')
   \<and> summary (callGeminiEnsemble
       (round_of (said 0 ''A'' 90) (said 1 ''A'' 80) (said 2 ''B'' 70) (failed 3)) ''Q'' [] None)
     = Some (''A'', 85, ''majority'')\<close>
  by code_simp

text \<open>
  C8. When the three workers and the judge all fail, the round ends in the error
  \<^verbatim>\<open>All models failed including Judge\<close>: no answer is returned.
\<close>

theorem ensemble_exhausted:
  assumes "\<forall>m \<in> set MODELS. \<not> success (callModel m prompt img)"
  shows "callGeminiEnsemble callModel prompt opts img = Inl ''All models failed including Judge''"
proof -
  from assms obtain m0 e0 m1 e1 m2 e2 m3 e3 where
    "callModel (MODELS ! 0) prompt img = Failure m0 e0"
    "callModel (MODELS ! 1) prompt img = Failure m1 e1"
    "callModel (MODELS ! 2) prompt img = Failure m2 e2"
    "callModel (MODELS ! 3) prompt img = Failure m3 e3"
    by (simp add: MODELS_def) (metis success.elims(3))
  then show ?thesis
    by (simp add: callGeminiEnsemble_def judge_phase_def count_vote_def sorted_votes_def
        object_entries_def js_sort_def)
qed

theorem ensemble_exhausted_witness:
  "list_all (\<lambda>m. \<not> success (round_of (failed 0) (failed 1) (failed 2) (failed 3) m ''Q'' None))
     MODELS
   \<and> callGeminiEnsemble (round_of (failed 0) (failed 1) (failed 2) (failed 3)) ''Q'' [] None
       = Inl ''All models failed including Judge''"
proof -
  have h: "\<forall>m \<in> set MODELS. \<not> success (round_of (failed 0) (failed 1) (failed 2) (failed 3) m ''Q'' None)"
    by (simp add: MODELS_def round_of_def failed_def)
  from ensemble_exhausted
    [of "round_of (failed 0) (failed 1) (failed 2) (failed 3)" "''Q''" None "[]", OF h] h
  show ?thesis by (simp add: list_all_iff)
qed

section \<open>No majority: the judge, then the best worker\<close>

lemma ensemble_no_majority:
  assumes "\<And>k. k \<noteq> [] \<Longrightarrow> length (supporters opts k (worker_results callModel prompt img)) < 2"
    and "list_all (\<lambda>r. \<not> inherited_key opts r) (worker_results callModel prompt img)"
  shows "callGeminiEnsemble callModel prompt opts img =
    judge_phase callModel prompt img (worker_results callModel prompt img)"
proof (cases "sorted_votes (foldl (count_plain opts) [] (worker_results callModel prompt img))")
  case Nil
  with for_each_plain [OF assms(2), of "[]"] show ?thesis
    by (simp add: callGeminiEnsemble_def Let_def worker_results_def)
next
  case (Cons topv rest)
  then have "topv \<in> set (sorted_votes (foldl (count_plain opts) []
      (worker_results callModel prompt img)))" by simp
  then obtain k where "k \<noteq> []"
    and "v_count topv = length (supporters opts k (worker_results callModel prompt img))"
    by (rule ensemble_entry) simp
  with assms(1) [of k] have "\<not> 2 \<le> v_count topv" by simp
  with Cons for_each_plain [OF assms(2), of "[]"] show ?thesis
    by (simp add: callGeminiEnsemble_def Let_def worker_results_def)
qed

text \<open>
  Sorting by descending confidence puts first the earliest result of the highest
  confidence.
\<close>

lemma js_sort_confidence_head:
  "xs \<noteq> [] \<Longrightarrow>
   \<exists>pre best post rest. xs = pre @ best # post
     \<and> js_sort confidence_order xs = best # rest
     \<and> (\<forall>r \<in> set pre. confidence r < confidence best)
     \<and> (\<forall>r \<in> set post. confidence r \<le> confidence best)"
proof (induction xs)
  case Nil
  then show ?case by simp
next
  case (Cons x xs)
  show ?case
  proof (cases "xs = []")
    case True
    then have "x # xs = [] @ x # [] \<and> js_sort confidence_order (x # xs) = x # []"
      by (simp add: js_sort_def)
    then show ?thesis by fastforce
  next
    case False
    with Cons.IH obtain pre best post rest where xs: "xs = pre @ best # post"
      and srt: "js_sort confidence_order xs = best # rest"
      and pre: "\<forall>r \<in> set pre. confidence r < confidence best"
      and post: "\<forall>r \<in> set post. confidence r \<le> confidence best"
      by blast
    have step: "js_sort confidence_order (x # xs) = insert_by confidence_order x (best # rest)"
      using srt by (simp add: js_sort_def)
    show ?thesis
    proof (cases "confidence best \<le> confidence x")
      case True
      then have "js_sort confidence_order (x # xs) = x # best # rest"
        using step by (simp add: confidence_order_def)
      moreover have "\<forall>r \<in> set xs. confidence r \<le> confidence x"
        using True pre post xs by fastforce
      ultimately have "x # xs = [] @ x # xs
          \<and> js_sort confidence_order (x # xs) = x # (best # rest)
          \<and> (\<forall>r \<in> set []. confidence r < confidence x)
          \<and> (\<forall>r \<in> set xs. confidence r \<le> confidence x)"
        by simp
      then show ?thesis by blast
    next
      case False
      then have "js_sort confidence_order (x # xs)
          = best # insert_by confidence_order x rest"
        using step by (simp add: confidence_order_def)
      moreover have "\<forall>r \<in> set (x # pre). confidence r < confidence best"
        using False pre by simp
      ultimately have "x # xs = (x # pre) @ best # post
          \<and> js_sort confidence_order (x # xs) = best # insert_by confidence_order x rest
          \<and> (\<forall>r \<in> set (x # pre). confidence r < confidence best)
          \<and> (\<forall>r \<in> set post. confidence r \<le> confidence best)"
        using xs post by simp
      then show ?thesis by blast
    qed
  qed
qed

text \<open>
  C4, as the code has it. In a round whose option labels are not names of inherited
  members, whose texts are ASCII and whose worker results are all reliable (their answers
  have fewer than four labels): when no normalized answer has two votes and the judge
  fails, \<^verbatim>\<open>callGeminiEnsemble\<close> returns the successful worker result of the highest
  confidence, the earliest in the order of the workers among equals, with the method
  \<^verbatim>\<open>fallback_worker\<close>.
\<close>

theorem judge_failure_fallback:
  assumes "\<forall>k. k \<noteq> [] \<longrightarrow> length (supporters opts k (worker_results callModel prompt img)) < 2"
    and "\<not> success (callModel (MODELS ! 3) prompt img)"
    and "filter success (worker_results callModel prompt img) \<noteq> []"
    and "plain_labels opts"
    and "ascii_round opts (worker_results callModel prompt img)"
    and "list_all reliable (worker_results callModel prompt img)"
  shows "\<exists>pre best post.
      filter success (worker_results callModel prompt img) = pre @ best # post
      \<and> (\<forall>r \<in> set pre. confidence r < confidence best)
      \<and> (\<forall>r \<in> set post. confidence r \<le> confidence best)
      \<and> callGeminiEnsemble callModel prompt opts img =
          Inr \<lparr>finalAnswer = answer best, finalConfidence = confidence best, votes = None,
               modelAnswers = None, method_used = ''fallback_worker''\<rparr>"
proof -
  let ?rs = "worker_results callModel prompt img"
  from js_sort_confidence_head [OF assms(3)]
  obtain pre best post rest where split: "filter success ?rs = pre @ best # post"
    and srt: "js_sort confidence_order (filter success ?rs) = best # rest"
    and pre: "\<forall>r \<in> set pre. confidence r < confidence best"
    and post: "\<forall>r \<in> set post. confidence r \<le> confidence best"
    by blast
  from assms(2) obtain m e where judge: "callModel (MODELS ! 3) prompt img = Failure m e"
    by (cases "callModel (MODELS ! 3) prompt img") simp_all
  have "callGeminiEnsemble callModel prompt opts img = judge_phase callModel prompt img ?rs"
    using assms(1) plain_labels_round [OF assms(4)] by (intro ensemble_no_majority) simp_all
  also have "\<dots> = Inr \<lparr>finalAnswer = answer best, finalConfidence = confidence best,
      votes = None, modelAnswers = None, method_used = ''fallback_worker''\<rparr>"
    using judge srt by (simp add: judge_phase_def)
  finally show ?thesis using split pre post by blast
qed

text \<open>The workers answer A (90), B (85) and C (70), and the judge fails: A, 90.\<close>

theorem judge_failure_fallback_witness:
  "callGeminiEnsemble (round_of (said 0 ''A'' 90) (said 1 ''B'' 85) (said 2 ''C'' 70) (failed 3))
       ''Q'' [] None =
     Inr \<lparr>finalAnswer = ''A'', finalConfidence = 90, votes = None, modelAnswers = None,
          method_used = ''fallback_worker''\<rparr>"
proof -
  let ?w = "round_of (said 0 ''A'' 90) (said 1 ''B'' 85) (said 2 ''C'' 70) (failed 3)"
  have rs: "worker_results ?w ''Q'' None = [said 0 ''A'' 90, said 1 ''B'' 85, said 2 ''C'' 70]"
    by code_simp
  have norm: "normalize ''A'' [] = ''A''" "normalize ''B'' [] = ''B''" "normalize ''C'' [] = ''C''"
    by code_simp+
  have h1: "\<forall>k. k \<noteq> [] \<longrightarrow> length (supporters [] k (worker_results ?w ''Q'' None)) < 2"
    unfolding rs by (auto simp: supporters_def votes_for_def said_def norm)
  have h2: "\<not> success (?w (MODELS ! 3) ''Q'' None)"
    by code_simp
  have h3: "filter success (worker_results ?w ''Q'' None) \<noteq> []"
    unfolding rs by (simp add: said_def)
  have h4: "plain_labels []"
    by (simp add: plain_labels_def)
  have h5: "ascii_round [] (worker_results ?w ''Q'' None)"
    by code_simp
  have h6: "list_all reliable (worker_results ?w ''Q'' None)"
    by code_simp
  from judge_failure_fallback [OF h1 h2 h3 h4 h5 h6]
  obtain v where "callGeminiEnsemble ?w ''Q'' [] None = Inr v"
    and "method_used v = ''fallback_worker''" by force
  moreover have "callGeminiEnsemble ?w ''Q'' [] None =
     Inr \<lparr>finalAnswer = ''A'', finalConfidence = 90, votes = None, modelAnswers = None,
          method_used = ''fallback_worker''\<rparr>"
    by code_simp
  ultimately show ?thesis by simp
qed

text \<open>
  The claim as the spec states it fails on its own example, where the method is
  \<^verbatim>\<open>fallback_worker\<close> and not \<^verbatim>\<open>fallback_confidence\<close>; and an answer of four letters,
  with its confidence of 95 uncapped, is the best worker before A (90) and B (85).
\<close>

theorem judge_failure_counterexample:
  "callGeminiEnsemble (round_of (said 0 ''A'' 90) (said 1 ''B'' 85) (said 2 ''C'' 70) (failed 3))
       ''Q'' [] None =
     Inr \<lparr>finalAnswer = ''A'', finalConfidence = 90, votes = None, modelAnswers = None,
          method_used = ''fallback_worker''\<rparr>
   \<and> ''fallback_worker'' \<noteq> ''fallback_confidence''
   \<and> callGeminiEnsemble
       (round_of (said 0 ''A, B, C, D'' 95) (said 1 ''A'' 90) (said 2 ''B'' 85) (failed 3))
       ''Q'' [] None =
     Inr \<lparr>finalAnswer = ''A, B, C, D'', finalConfidence = 95, votes = None,
          modelAnswers = None, method_used = ''fallback_worker''\<rparr>"
  by code_simp

section \<open>The penalty of the confidence-weighted vote, absent from the ensemble\<close>

lemma upper_char_idem: "upper_char (upper_char c) = upper_char c"
  by (cases c) (simp add: upper_char_def)

lemma is_space_upper_char: "is_space (upper_char c) = is_space c"
  by (cases c) (auto simp: upper_char_def is_space_def)

lemma toUpperCase_idem: "toUpperCase (toUpperCase s) = toUpperCase s"
  by (simp add: toUpperCase_def upper_char_idem)

lemma dropWhile_space_upper:
  "dropWhile is_space (map upper_char s) = map upper_char (dropWhile is_space s)"
  by (induction s) (simp_all add: is_space_upper_char)

lemma toUpperCase_trim: "toUpperCase (trim s) = trim (toUpperCase s)"
  by (simp add: toUpperCase_def trim_def rev_map dropWhile_space_upper)

lemma dropWhile_last:
  "dropWhile P xs \<noteq> [] \<Longrightarrow> last (dropWhile P xs) = last xs"
  by (induction xs) (auto split: if_splits)

lemma trim_idem: "trim (trim s) = trim s"
proof -
  let ?u = "dropWhile is_space s"
  let ?v = "dropWhile is_space (rev ?u)"
  have v_hd: "?v \<noteq> [] \<Longrightarrow> \<not> is_space (hd ?v)"
    by (rule hd_dropWhile)
  have v_last: "\<not> is_space (last ?v)" if "?v \<noteq> []"
  proof -
    from that have "rev ?u \<noteq> []" by (cases "rev ?u") simp_all
    then have "?u \<noteq> []" by simp
    then have "\<not> is_space (hd ?u)" by (rule hd_dropWhile)
    moreover have "last ?v = last (rev ?u)" using that by (rule dropWhile_last)
    moreover have "last (rev ?u) = hd ?u" using \<open>?u \<noteq> []\<close> by (simp add: last_rev)
    ultimately show ?thesis by simp
  qed
  have 1: "dropWhile is_space (rev ?v) = rev ?v"
  proof (cases "?v = []")
    case True
    show ?thesis unfolding True by simp
  next
    case False
    then have "\<not> is_space (hd (rev ?v))" using v_last by (simp add: hd_rev)
    with False show ?thesis by (cases "rev ?v") simp_all
  qed
  have 2: "dropWhile is_space ?v = ?v"
  proof (cases "?v = []")
    case True
    show ?thesis unfolding True by simp
  next
    case False
    with v_hd show ?thesis by (cases ?v) simp_all
  qed
  show ?thesis
    unfolding trim_def by (simp add: 1 2)
qed

lemma trim_Nil: "trim [] = []"
  by (simp add: trim_def)

lemma answer_key_fixed: "trim (toUpperCase (trim (toUpperCase a))) = trim (toUpperCase a)"
  by (simp add: toUpperCase_trim toUpperCase_idem trim_idem)

lemma normalizeAnswer_key: "normalizeAnswer (trim (toUpperCase a)) = normalizeAnswer a"
proof (cases "trim (toUpperCase a) = []")
  case True
  have "normalizeAnswer a = []"
  proof (cases "a = []")
    case True
    then show ?thesis by (simp add: normalizeAnswer_def)
  next
    case False
    with \<open>trim (toUpperCase a) = []\<close> show ?thesis
      by (simp add: normalizeAnswer_def split_space_comma_def is_capital_def js_dedupe_def
          trim_Nil)
  qed
  with True show ?thesis by (simp add: normalizeAnswer_def)
next
  case False
  then have "a \<noteq> []" by (auto simp: trim_def toUpperCase_def)
  with False show ?thesis
    by (simp add: normalizeAnswer_def answer_key_fixed)
qed

lemma round_div_le:
  assumes "t \<le> 40 * int n" and "0 < n"
  shows "round_div t n \<le> 40"
proof -
  define d where "d = 2 * int n"
  define a where "a = 2 * t + int n"
  have d: "0 < d" using assms(2) by (simp add: d_def)
  have a: "a < 41 * d" using assms by (simp add: a_def d_def)
  have "d * (a div d) + a mod d = a" by simp
  moreover have "0 \<le> a mod d" using d by simp
  ultimately have le: "d * (a div d) \<le> a" by linarith
  have "a div d < 41"
  proof (rule ccontr)
    assume "\<not> a div d < 41"
    then have "41 \<le> a div d" by simp
    then have "d * 41 \<le> d * (a div d)" using d by (simp add: mult_left_mono)
    with le a show False by simp
  qed
  then show ?thesis by (simp add: round_div_def a_def d_def)
qed

lemma sum_list_bounded:
  "(\<And>x. x \<in> set xs \<Longrightarrow> f x \<le> (c::int)) \<Longrightarrow> sum_list (map f xs) \<le> c * int (length xs)"
proof (induction xs)
  case Nil
  show ?case by simp
next
  case (Cons x xs)
  have "f x \<le> c" using Cons.prems by simp
  moreover have "sum_list (map f xs) \<le> c * int (length xs)"
    using Cons by simp
  ultimately show ?case by (simp add: algebra_simps)
qed

lemma foldl_higher_mem: "foldl higher x xs \<in> set (x # xs)"
  by (induction xs arbitrary: x) (auto simp: higher_def)

lemma penalize_success:
  "success r \<Longrightarrow>
   success (fst (penalize r)) \<and> answer (fst (penalize r)) = answer r
   \<and> model (fst (penalize r)) = model r
   \<and> snd (penalize r) = (4 \<le> length (normalizeAnswer (answer r)))
   \<and> confidence (fst (penalize r))
       = (if 4 \<le> length (normalizeAnswer (answer r)) then min (confidence r) 40
          else confidence r)"
  by (cases r) (simp_all add: penalize_def)

lemma count_answers_cast:
  "list_all (\<lambda>ru. success (fst ru)) rr \<Longrightarrow>
   foldl count_answer T rr
     = foldl cast T (map (\<lambda>ru. (trim (toUpperCase (answer (fst ru))), confidence (fst ru),
                                  model (fst ru))) rr)"
proof (induction rr arbitrary: T)
  case Nil
  show ?case by simp
next
  case (Cons ru rr)
  then obtain m a c rw where "fst ru = Success m a c rw"
    by (cases "fst ru") simp_all
  with Cons show ?case by (simp add: count_answer_def cast_def)
qed

text \<open>
  Whatever step 3 decides, an answer of four labels or more is returned with a
  confidence of 40 at most.
\<close>

lemma decide_capped:
  assumes rr: "rr = map penalize rs" and ok: "list_all success rs" and ne: "rs \<noteq> []"
  shows "\<exists>a c m. decide (sorted_votes (foldl count_answer [] rr)) rr = Inr (a, c, m)
           \<and> (4 \<le> length (normalizeAnswer a) \<longrightarrow> c \<le> 40)"
proof -
  have mem: "success (fst ru) \<and> snd ru = (4 \<le> length (normalizeAnswer (answer (fst ru))))
      \<and> (4 \<le> length (normalizeAnswer (answer (fst ru))) \<longrightarrow> confidence (fst ru) \<le> 40)"
    if "ru \<in> set rr" for ru
  proof -
    from that rr obtain r where "r \<in> set rs" and "ru = penalize r" by auto
    moreover from this ok have "success r" by (simp add: list_all_iff)
    ultimately show ?thesis using penalize_success [of r] by auto
  qed
  let ?bs = "map (\<lambda>ru. (trim (toUpperCase (answer (fst ru))), confidence (fst ru),
                         model (fst ru))) rr"
  let ?S = "sorted_votes (foldl count_answer [] rr)"
  have tally: "foldl count_answer [] rr = foldl cast [] ?bs"
    using mem by (intro count_answers_cast) (simp add: list_all_iff)
  have entry: "4 \<le> length (normalizeAnswer (v_answer e)) \<longrightarrow> v_avgConfidence e \<le> 40"
    if "e \<in> set ?S" for e
  proof
    assume four: "4 \<le> length (normalizeAnswer (v_answer e))"
    from that obtain k where k: "k \<in> fst ` set ?bs" and e: "e = to_entry (k, data_of k ?bs)"
      unfolding tally sorted_votes_set by blast
    have "fst (snd b) \<le> 40" if "b \<in> set (filter (\<lambda>b. fst b = k) ?bs)" for b
    proof -
      from that obtain ru where ru: "ru \<in> set rr"
        and b: "b = (trim (toUpperCase (answer (fst ru))), confidence (fst ru), model (fst ru))"
        and key: "trim (toUpperCase (answer (fst ru))) = k"
        by auto
      from key have "normalizeAnswer (answer (fst ru)) = normalizeAnswer k"
        using normalizeAnswer_key [of "answer (fst ru)"] by simp
      with four e have "4 \<le> length (normalizeAnswer (answer (fst ru)))"
        by (simp add: to_entry_def)
      with mem [OF ru] b show ?thesis by simp
    qed
    then have "sum_list (map (\<lambda>b. fst (snd b)) (filter (\<lambda>b. fst b = k) ?bs))
        \<le> 40 * int (length (filter (\<lambda>b. fst b = k) ?bs))"
      by (rule sum_list_bounded)
    moreover have "0 < length (filter (\<lambda>b. fst b = k) ?bs)"
    proof -
      from k have "filter (\<lambda>b. fst b = k) ?bs \<noteq> []"
        using key_iff_filter [of k ?bs] by blast
      then show ?thesis by blast
    qed
    ultimately have "round_div (sum_list (map (\<lambda>b. fst (snd b)) (filter (\<lambda>b. fst b = k) ?bs)))
        (length (filter (\<lambda>b. fst b = k) ?bs)) \<le> 40"
      by (rule round_div_le)
    with e show "v_avgConfidence e \<le> 40"
      by (simp add: to_entry_def data_of_def)
  qed
  have picked: "4 \<le> length (normalizeAnswer (answer (fst ru))) \<longrightarrow> confidence (fst ru) \<le> 40"
    if "pick_reliable m rr = Some ru" for m ru
  proof -
    from that have "ru \<in> set rr"
      unfolding pick_reliable_def by (auto simp: find_Some_iff)
    with mem show ?thesis by blast
  qed
  from ne rr obtain first others where rr': "rr = first # others"
    by (cases rs) simp_all
  have "foldl higher first others \<in> set rr"
    using foldl_higher_mem [of first others] rr' by simp
  with mem have best: "4 \<le> length (normalizeAnswer (answer (fst (foldl higher first others))))
      \<longrightarrow> confidence (fst (foldl higher first others)) \<le> 40"
    by blast
  show ?thesis
  proof (cases ?S)
    case Nil
    with picked best rr' show ?thesis
      by (auto simp: decide_def Let_def split: option.splits)
  next
    case (Cons topAnswer rest)
    then have "topAnswer \<in> set ?S" by simp
    from entry [OF this] Cons picked best rr' show ?thesis
      by (auto simp: decide_def Let_def split: option.splits)
  qed
qed

text \<open>
  The penalty of \<^verbatim>\<open>_confidenceWeightedVote\<close>: when two results or more succeeded, with
  ASCII answers, every successful result whose answer has four labels or more has its
  confidence cut to 40 and is marked unreliable before the tally, and an answer of four
  labels or more is never returned with a confidence above 40.
\<close>

lemma weighted_vote_penalty:
  assumes "2 \<le> length (filter success modelResults)"
    and "ascii_round [] modelResults"
  shows "\<exists>v. confidenceWeightedVote modelResults = Inr v
    \<and> modelAnswers v =
        Some (map (\<lambda>r. if 4 \<le> length (normalizeAnswer (answer r))
                        then (model r @ warning_mark, answer r, min (confidence r) 40)
                        else (model r, answer r, confidence r))
               (filter success modelResults))
    \<and> (4 \<le> length (normalizeAnswer (finalAnswer v)) \<longrightarrow> finalConfidence v \<le> 40)"
proof -
  let ?rs = "filter success modelResults"
  let ?rr = "map penalize ?rs"
  from assms(1) obtain r1 r2 rest where rs: "?rs = r1 # r2 # rest"
    by (cases ?rs; cases "tl ?rs") auto
  have ok: "list_all success ?rs" by (simp add: list_all_iff)
  have "?rs \<noteq> []" using rs by simp
  from decide_capped [OF refl ok this]
  obtain a c m where d: "decide (sorted_votes (foldl count_answer [] ?rr)) ?rr = Inr (a, c, m)"
    and cap: "4 \<le> length (normalizeAnswer a) \<longrightarrow> c \<le> 40"
    by blast
  have names: "map (\<lambda>ru. (model (fst ru) @ (if snd ru then warning_mark else []),
                          answer (fst ru), confidence (fst ru))) ?rr
      = map (\<lambda>r. if 4 \<le> length (normalizeAnswer (answer r))
                  then (model r @ warning_mark, answer r, min (confidence r) 40)
                  else (model r, answer r, confidence r)) ?rs"
    using penalize_success by (auto simp: list_all_iff)
  have "confidenceWeightedVote modelResults =
      Inr \<lparr>finalAnswer = a, finalConfidence = c,
           votes = Some (object_entries (map (\<lambda>a. (v_answer a, v_count a, v_avgConfidence a))
                          (sorted_votes (foldl count_answer [] ?rr)))),
           modelAnswers = Some (map (\<lambda>ru. (model (fst ru) @ (if snd ru then warning_mark else []),
                          answer (fst ru), confidence (fst ru))) ?rr),
           method_used = m\<rparr>"
    using d unfolding confidenceWeightedVote_def rs [symmetric] Let_def
    by (simp add: rs)
  with cap names show ?thesis by simp
qed

text \<open>
  C2. The round of the ensemble has no such penalty: \<^verbatim>\<open>callGeminiEnsemble\<close> tallies and
  falls back on the confidences as the workers gave them. One worker answers A (60), one
  lists five letters (99), the third and the judge fail: the two answers tie with one
  vote each, and the list of five letters wins on its raw confidence of 99. Two workers
  that list four letters (95 and 90) beside a B (70) win with the confidence 93.
  \<^verbatim>\<open>_confidenceWeightedVote\<close>, given the same results, cuts the lists to 40 and marks
  them: it returns A with 60 in the first round and the list with 40 in the second.
\<close>

theorem penalty_missing_in_ensemble:
  "length (normalizeAnswer ''A, B, C, D, E'') = 5
   \<and> summary (callGeminiEnsemble
        (round_of (said 0 ''A'' 60) (said 1 ''A, B, C, D, E'' 99) (failed 2) (failed 3))
           ''Q'' [] None)
      = Some (''A, B, C, D, E'', 99, ''fallback_worker'')
   \<and> summary (confidenceWeightedVote [said 0 ''A'' 60, said 1 ''A, B, C, D, E'' 99, failed 2])
      = Some (''A'', 60, ''primary'')
   \<and> (case confidenceWeightedVote [said 0 ''A'' 60, said 1 ''A, B, C, D, E'' 99, failed 2] of
         Inl err \<Rightarrow> None | Inr v \<Rightarrow> modelAnswers v)
      = Some [(MODELS ! 0, ''A'', 60), (MODELS ! 1 @ warning_mark, ''A, B, C, D, E'', 40)]
   \<and> length (normalizeAnswer ''A, B, C, D'') = 4
   \<and> summary (callGeminiEnsemble
        (round_of (said 0 ''A, B, C, D'' 95) (said 1 ''A, B, C, D'' 90) (said 2 ''B'' 70)
           (failed 3)) ''Q'' [] None)
      = Some (''A, B, C, D'', 93, ''majority'')
   \<and> summary (confidenceWeightedVote
        [said 0 ''A, B, C, D'' 95, said 1 ''A, B, C, D'' 90, said 2 ''B'' 70])
      = Some (''A, B, C, D'', 40, ''consensus'')"
  by code_simp
section \<open>Letters and literals of a true/false question\<close>

lemma upper_lower_char: "upper_char (lower_char c) = upper_char c"
  by (cases c) (auto simp: upper_char_def lower_char_def)

lemma toUpperCase_toLowerCase: "toUpperCase (toLowerCase s) = toUpperCase s"
  by (simp add: toUpperCase_def toLowerCase_def upper_lower_char)

lemma is_space_lower_char: "is_space (lower_char c) = is_space c"
  by (cases c) (auto simp: lower_char_def is_space_def)

lemma dropWhile_space_lower:
  "dropWhile is_space (map lower_char s) = map lower_char (dropWhile is_space s)"
  by (induction s) (simp_all add: is_space_lower_char)

lemma toLowerCase_trim: "toLowerCase (trim s) = trim (toLowerCase s)"
  by (simp add: toLowerCase_def trim_def rev_map dropWhile_space_lower)

lemma literal_upper:
  assumes "trim (toLowerCase s) = lit"
  shows "toUpperCase (trim s) = toUpperCase lit"
  using assms toUpperCase_toLowerCase [of "trim s"] by (simp add: toLowerCase_trim)

lemma normalize_literal:
  assumes "trim (toLowerCase s) = lit" and "lit = ''true'' \<or> lit = ''false''"
  shows "normalize s opts = lit"
proof -
  from assms have "s \<noteq> []" by (auto simp: trim_def toLowerCase_def)
  moreover have "toUpperCase (trim s) = toUpperCase lit"
    using assms(1) by (rule literal_upper)
  moreover have "toUpperCase ''true'' = ''TRUE''" "toUpperCase ''false'' = ''FALSE''"
    by (simp_all add: toUpperCase_def upper_char_def)
  ultimately show ?thesis
    using assms(2) by (auto simp: normalize_def Let_def toUpperCase_idem)
qed

lemma normalize_letter:
  assumes opts: "opts = [o1, o2]" and labels: "opt_label o1 \<noteq> opt_label o2"
    and texts: "{trim (toLowerCase (opt_text o1)), trim (toLowerCase (opt_text o2))}
                  = {''true'', ''false''}"
    and o': "o' \<in> set opts" and l: "opt_label o' = ''A'' \<or> opt_label o' = ''B''"
    and ans: "toUpperCase (trim ans) = opt_label o'"
  shows "normalize ans opts = trim (toLowerCase (opt_text o'))"
proof -
  have "ans \<noteq> []" using ans l by (auto simp: trim_def toUpperCase_def)
  moreover have "toUpperCase ''A'' = ''A''" "toUpperCase ''B'' = ''B''"
    by (simp_all add: toUpperCase_def upper_char_def)
  moreover have "true_false_letter (opt_label o') opts = Some (trim (toLowerCase (opt_text o')))"
    using opts labels texts o' l
    by (auto simp: true_false_letter_def Let_def has_label_def doubleton_eq_iff)
  ultimately show ?thesis
    using ans l by (auto simp: normalize_def Let_def)
qed

text \<open>
  C10. For a question with the two options true and false, labelled differently, a
  worker answer that is the letter A or B is normalized to the literal of the option
  with this label, as an answer that is this literal itself is: a round in which one
  worker gives the letter and another the literal returns the literal, with two votes
  or three.
\<close>

theorem true_false_letter_vote:
  assumes "opts = [o1, o2]" and "opt_label o1 \<noteq> opt_label o2"
    and "{trim (toLowerCase (opt_text o1)), trim (toLowerCase (opt_text o2))}
           = {''true'', ''false''}"
    and "o' \<in> set opts" and "opt_label o' = ''A'' \<or> opt_label o' = ''B''"
    and "toUpperCase (trim letter) = opt_label o'"
    and "trim (toLowerCase literal) = trim (toLowerCase (opt_text o'))"
  shows "normalize letter opts = trim (toLowerCase (opt_text o'))
    \<and> normalize literal opts = trim (toLowerCase (opt_text o'))
    \<and> (\<forall>callModel prompt img m0 c0 rw0 m1 c1 rw1.
          callModel (MODELS ! 0) prompt img = Success m0 letter c0 rw0
          \<and> callModel (MODELS ! 1) prompt img = Success m1 literal c1 rw1
          \<longrightarrow> (\<exists>v. callGeminiEnsemble callModel prompt opts img = Inr v
                 \<and> finalAnswer v = trim (toLowerCase (opt_text o'))
                 \<and> (method_used v = ''majority'' \<or> method_used v = ''unanimous'')))"
proof -
  let ?lit = "trim (toLowerCase (opt_text o'))"
  have lit: "?lit = ''true'' \<or> ?lit = ''false''"
    using assms(1,3,4) by (auto simp: doubleton_eq_iff)
  have 1: "normalize letter opts = ?lit"
    using assms(1-6) by (rule normalize_letter)
  have 2: "normalize literal opts = ?lit"
    using assms(7) lit by (rule normalize_literal)
  have plain: "\<not> inherited_key opts r" for r
  proof
    assume "inherited_key opts r"
    then obtain m a c rw where inh: "normalize a opts \<in> set inherited_members"
      by (cases r) (simp_all add: inherited_key_def)
    from normalize_inherited [OF inh] obtain o'' where o'': "o'' \<in> set opts"
      and low: "toLowerCase (trim (opt_text o'')) = toLowerCase (toUpperCase (trim a))"
      and t: "toUpperCase (toUpperCase (trim a)) \<noteq> ''TRUE''"
      and f: "toUpperCase (toUpperCase (trim a)) \<noteq> ''FALSE''"
      by blast
    from o'' assms(1,3) have "trim (toLowerCase (opt_text o'')) = ''true''
        \<or> trim (toLowerCase (opt_text o'')) = ''false''"
      by (auto simp: doubleton_eq_iff)
    with low have "toLowerCase (toUpperCase (trim a)) = ''true''
        \<or> toLowerCase (toUpperCase (trim a)) = ''false''"
      by (simp add: toLowerCase_trim)
    moreover have "toUpperCase (toUpperCase (trim a))
        = toUpperCase (toLowerCase (toUpperCase (trim a)))"
      by (simp add: toUpperCase_toLowerCase)
    moreover have "toUpperCase ''true'' = ''TRUE''" "toUpperCase ''false'' = ''FALSE''"
      by code_simp+
    ultimately show False using t f by auto
  qed
  have 3: "\<exists>v. callGeminiEnsemble callModel prompt opts img = Inr v
                 \<and> finalAnswer v = ?lit
                 \<and> (method_used v = ''majority'' \<or> method_used v = ''unanimous'')"
    if "callModel (MODELS ! 0) prompt img = Success m0 letter c0 rw0"
      and "callModel (MODELS ! 1) prompt img = Success m1 literal c1 rw1"
    for callModel prompt img m0 c0 rw0 m1 c1 rw1
  proof -
    have "?lit \<noteq> []" using lit by auto
    moreover have "2 \<le> length (supporters opts ?lit (worker_results callModel prompt img))"
      using that 1 2 by (simp add: supporters_def worker_results_def votes_for_def)
    moreover have "list_all (\<lambda>r. \<not> inherited_key opts r) (worker_results callModel prompt img)"
      using plain by (simp add: list_all_iff)
    ultimately show ?thesis
      by (simp add: ensemble_majority)
  qed
  from 1 2 3 show ?thesis by blast
qed

text \<open>
  The options are A = True and B = False; the workers answer \<open>b\<close>, \<open>FALSE\<close> and \<open>A\<close>: the
  answer is false, by majority.
\<close>

theorem true_false_letter_vote_witness:
  "normalize ''b'' [\<lparr>opt_label = ''A'', opt_text = ''True''\<rparr>, \<lparr>opt_label = ''B'', opt_text = ''False''\<rparr>]
     = ''false''
   \<and> normalize ''FALSE'' [\<lparr>opt_label = ''A'', opt_text = ''True''\<rparr>, \<lparr>opt_label = ''B'', opt_text = ''False''\<rparr>]
     = ''false''
   \<and> summary (callGeminiEnsemble
        (round_of (said 0 ''b'' 80) (said 1 ''FALSE'' 90) (said 2 ''A'' 70) (failed 3)) ''Q''
        [\<lparr>opt_label = ''A'', opt_text = ''True''\<rparr>, \<lparr>opt_label = ''B'', opt_text = ''False''\<rparr>] None)
     = Some (''false'', 85, ''majority'')"
proof -
  let ?o1 = "\<lparr>opt_label = ''A'', opt_text = ''True''\<rparr>"
  let ?o2 = "\<lparr>opt_label = ''B'', opt_text = ''False''\<rparr>"
  have t: "trim (toLowerCase ''True'') = ''true''" "trim (toLowerCase ''False'') = ''false''"
    "trim (toLowerCase ''FALSE'') = ''false''" "toUpperCase (trim ''b'') = ''B''"
    by code_simp+
  have h3: "{trim (toLowerCase (opt_text ?o1)), trim (toLowerCase (opt_text ?o2))}
      = {''true'', ''false''}"
    by (simp add: t)
  have h6: "toUpperCase (trim ''b'') = opt_label ?o2" by (simp add: t)
  have h7: "trim (toLowerCase ''FALSE'') = trim (toLowerCase (opt_text ?o2))" by (simp add: t)
  from true_false_letter_vote [of "[?o1, ?o2]" ?o1 ?o2 ?o2 "''b''" "''FALSE''", OF refl _ h3 _ _ h6 h7]
  have "normalize ''b'' [?o1, ?o2] = ''false'' \<and> normalize ''FALSE'' [?o1, ?o2] = ''false''"
    by (simp add: t)
  moreover have "summary (callGeminiEnsemble
        (round_of (said 0 ''b'' 80) (said 1 ''FALSE'' 90) (said 2 ''A'' 70) (failed 3)) ''Q''
        [?o1, ?o2] None) = Some (''false'', 85, ''majority'')"
    by code_simp
  ultimately show ?thesis by simp
qed

section \<open>The prompt of a question given as a string\<close>

text \<open>
  C5. For a string, \<^verbatim>\<open>buildPrompt\<close> returns the same template whatever the string is:
  the prompt of the question \<open>Which port does Winbox use by default?\<close> does not contain
  the question. (For a \<^verbatim>\<open>QuestionInput\<close> it does: see \<open>structured_prompt\<close>.)
\<close>

theorem string_prompt_omits_question:
  "buildPrompt (Text q) = buildPrompt (Text [])
   \<and> \<not> js_includes (buildPrompt (Text ''Which port does Winbox use by default?''))
         ''Which port does Winbox use by default?''"
proof -
  have "\<not> js_includes (buildPrompt (Text ''Which port does Winbox use by default?''))
         ''Which port does Winbox use by default?''"
    by code_simp
  then show ?thesis by (simp add: buildPrompt_def)
qed

text \<open>
  The prompt of a structured question, in order: the instructions, the question, the
  options as \<open>label. text\<close> in their order, the output format with the JSON object, and
  the note on the image when there is one.
\<close>

lemma structured_prompt:
  assumes "q_options q = Some opts" and "opts \<noteq> []"
  shows "buildPrompt (Question q) =
    instructions @ line (''Question: '' @ q_question q) @ line ''Options:''
    @ concat (map (\<lambda>opt. line (opt_label opt @ ''. '' @ opt_text opt)) opts)
    @ type_line (q_type q) @ output_format @ (if has_image q then image_note else [])"
proof -
  have "option_line = (\<lambda>opt. line (opt_label opt @ ''. '' @ opt_text opt))"
    by (rule ext) (simp add: option_line_def)
  with assms show ?thesis by (simp add: buildPrompt_def)
qed

section \<open>The cache\<close>

lemma vacuum_expired:
  "recentAnswers st key = Some e \<Longrightarrow> TTL_MS < now - ts e \<Longrightarrow>
   recentAnswers (vacuum now st) key = None"
  by (simp add: vacuum_def)

lemma vacuum_sub:
  "recentAnswers (vacuum now st) k = Some v \<Longrightarrow> recentAnswers st k = Some v"
  by (auto simp: vacuum_def split: option.splits if_splits)

lemma processRequestDirectly_cases:
  "(\<exists>err. processRequestDirectly callModel d s key rawPrompt start st
        = (Inl err, st\<lparr>requestCounter := requestCounter st + 1\<rparr>)
      \<and> callGeminiEnsemble callModel (buildPrompt rawPrompt) (options_of rawPrompt)
            (image_of rawPrompt) = Inl err)
   \<or> (\<exists>voting. processRequestDirectly callModel d s key rawPrompt start st
        = (Inr (finalAnswer voting, d - start, finalConfidence voting),
           st\<lparr>requestCounter := requestCounter st + 1,
              recentAnswers := (recentAnswers st)(key \<mapsto>
                \<lparr>c_answer = finalAnswer voting, ts = s\<rparr>)\<rparr>)
      \<and> callGeminiEnsemble callModel (buildPrompt rawPrompt) (options_of rawPrompt)
            (image_of rawPrompt) = Inr voting)"
  by (cases "callGeminiEnsemble callModel (buildPrompt rawPrompt) (options_of rawPrompt)
        (image_of rawPrompt)")
    (simp_all add: processRequestDirectly_def ENSEMBLE_MODE_def Let_def)

text \<open>
  C7. An entry older than \<^verbatim>\<open>TTL_MS\<close> (120000 ms) is absent after \<^verbatim>\<open>vacuum\<close>, and a
  request for its key, whether the entry is too old when the handler vacuums or when it
  looks the key up, is answered by a fresh round and never from the cache.
\<close>

theorem cache_expiry:
  assumes "recentAnswers st key = Some e"
  shows "TTL_MS = 120000
    \<and> (TTL_MS < now - ts e \<longrightarrow> recentAnswers (vacuum now st) key = None)
    \<and> (TTL_MS < t_vacuum clk - ts e \<or> TTL_MS < t_lookup clk - ts e \<longrightarrow>
          handler_ask callModel clk key rawPrompt st
            = fresh_round callModel clk key rawPrompt (vacuum (t_vacuum clk) st)
          \<and> (\<forall>a. fst (handler_ask callModel clk key rawPrompt st) \<noteq> Cached a))"
proof -
  have fresh: "fst (fresh_round callModel clk key rawPrompt st') \<noteq> Cached a" for st' a
    using processRequestDirectly_cases
      [of callModel "t_done clk" "t_store clk" key rawPrompt "t_start clk" st']
    by (auto simp: fresh_round_def)
  have "handler_ask callModel clk key rawPrompt st
      = fresh_round callModel clk key rawPrompt (vacuum (t_vacuum clk) st)"
    if "TTL_MS < t_vacuum clk - ts e \<or> TTL_MS < t_lookup clk - ts e"
    using that assms by (auto simp: handler_ask_def cache_hit_def vacuum_def Let_def)
  with fresh assms show ?thesis
    by (simp add: TTL_MS_def vacuum_def)
qed

text \<open>
  An answer stored at time 1000 is served at the lookup time 121000 and not at 121001.
\<close>

theorem cache_expiry_witness:
  "fst (handler_ask (round_of (said 0 ''B'' 90) (said 1 ''B'' 80) (said 2 ''C'' 70) (failed 3))
          \<lparr>t_vacuum = 121000, t_lookup = 121000, t_start = 121000, t_done = 121500,
           t_store = 121500\<rparr> ''q'' (Text ''q'')
          \<lparr>recentAnswers = [''q'' \<mapsto> \<lparr>c_answer = ''A'', ts = 1000\<rparr>], requestCounter = 0\<rparr>)
     = Cached ''A''
   \<and> fst (handler_ask (round_of (said 0 ''B'' 90) (said 1 ''B'' 80) (said 2 ''C'' 70) (failed 3))
          \<lparr>t_vacuum = 121001, t_lookup = 121001, t_start = 121001, t_done = 121500,
           t_store = 121500\<rparr> ''q'' (Text ''q'')
          \<lparr>recentAnswers = [''q'' \<mapsto> \<lparr>c_answer = ''A'', ts = 1000\<rparr>], requestCounter = 0\<rparr>)
     = Answered ''B'' 499 85"
proof -
  let ?w = "round_of (said 0 ''B'' 90) (said 1 ''B'' 80) (said 2 ''C'' 70) (failed 3)"
  let ?st = "\<lparr>recentAnswers = [''q'' \<mapsto> \<lparr>c_answer = ''A'', ts = 1000\<rparr>], requestCounter = 0\<rparr>"
  let ?late = "\<lparr>t_vacuum = 121001, t_lookup = 121001, t_start = 121001, t_done = 121500,
           t_store = 121500\<rparr>"
  let ?e = "\<lparr>c_answer = ''A'', ts = 1000\<rparr>"
  have round: "callGeminiEnsemble ?w (buildPrompt (Text ''q'')) [] None
      = Inr \<lparr>finalAnswer = ''B'', finalConfidence = 85, votes = None, modelAnswers = None,
             method_used = ''majority''\<rparr>"
    by code_simp
  have e: "recentAnswers ?st ''q'' = Some ?e" by simp
  have old: "TTL_MS < t_vacuum ?late - ts ?e \<or> TTL_MS < t_lookup ?late - ts ?e"
    by (simp add: TTL_MS_def)
  from cache_expiry [OF e, of _ ?late ?w "Text ''q''"] old
  have "handler_ask ?w ?late ''q'' (Text ''q'') ?st
      = fresh_round ?w ?late ''q'' (Text ''q'') (vacuum (t_vacuum ?late) ?st)"
    by blast
  then have 2: "fst (handler_ask ?w ?late ''q'' (Text ''q'') ?st) = Answered ''B'' 499 85"
    using round
    by (simp add: fresh_round_def processRequestDirectly_def ENSEMBLE_MODE_def Let_def
        options_of_def image_of_def)
  have 1: "fst (handler_ask ?w \<lparr>t_vacuum = 121000, t_lookup = 121000, t_start = 121000,
      t_done = 121500, t_store = 121500\<rparr> ''q'' (Text ''q'') ?st) = Cached ''A''"
    by (simp add: handler_ask_def cache_hit_def vacuum_def TTL_MS_def Let_def)
  from 1 2 show ?thesis by simp
qed

text \<open>
  C9. A round that ends in an error leaves the cache as it was: \<^verbatim>\<open>processRequestDirectly\<close>
  stores nothing, and the handler, which has vacuumed before the round, answers 400 with
  the cache it had after the vacuum. Whatever the outcome of a request, every entry of
  the cache after it was in the cache before it or is the answer of the round that this
  request ran to its end.
\<close>

theorem failed_round_leaves_cache:
  "(fst (processRequestDirectly callModel d s key rawPrompt start st) = Inl err \<longrightarrow>
      recentAnswers (snd (processRequestDirectly callModel d s key rawPrompt start st))
        = recentAnswers st)
   \<and> (fst (handler_ask callModel clk key rawPrompt st) = BadRequest msg \<longrightarrow>
        recentAnswers (snd (handler_ask callModel clk key rawPrompt st))
          = recentAnswers (vacuum (t_vacuum clk) st))
   \<and> (recentAnswers (snd (handler_ask callModel clk key rawPrompt st)) k = Some v \<longrightarrow>
        recentAnswers st k = Some v
        \<or> (k = key \<and> ts v = t_store clk
            \<and> (\<exists>voting. callGeminiEnsemble callModel (buildPrompt rawPrompt)
                  (options_of rawPrompt) (image_of rawPrompt) = Inr voting
                \<and> c_answer v = finalAnswer voting)))"
proof -
  have 1: "recentAnswers (snd (processRequestDirectly callModel d s key rawPrompt start st'))
        = recentAnswers st'"
    if "fst (processRequestDirectly callModel d s key rawPrompt start st') = Inl err"
    for d s start st' err
    using that processRequestDirectly_cases [of callModel d s key rawPrompt start st']
    by auto
  have hit: "recentAnswers (snd (handler_ask callModel clk key rawPrompt st))
      = recentAnswers (vacuum (t_vacuum clk) st)"
    if "cache_hit clk key (vacuum (t_vacuum clk) st) = Some c" for c
    using that by (simp add: handler_ask_def Let_def)
  have miss: "handler_ask callModel clk key rawPrompt st
      = fresh_round callModel clk key rawPrompt (vacuum (t_vacuum clk) st)"
    if "cache_hit clk key (vacuum (t_vacuum clk) st) = None"
    using that by (simp add: handler_ask_def Let_def)
  let ?st1 = "vacuum (t_vacuum clk) st"
  note pr = processRequestDirectly_cases
    [of callModel "t_done clk" "t_store clk" key rawPrompt "t_start clk" ?st1]
  have 2: "recentAnswers (snd (handler_ask callModel clk key rawPrompt st))
          = recentAnswers ?st1"
    if "fst (handler_ask callModel clk key rawPrompt st) = BadRequest msg"
  proof (cases "cache_hit clk key ?st1")
    case None
    with that pr show ?thesis
      by (auto simp: miss fresh_round_def)
  next
    case (Some c)
    then show ?thesis by (rule hit)
  qed
  have 3: "recentAnswers st k = Some v
        \<or> (k = key \<and> ts v = t_store clk
            \<and> (\<exists>voting. callGeminiEnsemble callModel (buildPrompt rawPrompt)
                  (options_of rawPrompt) (image_of rawPrompt) = Inr voting
                \<and> c_answer v = finalAnswer voting))"
    if "recentAnswers (snd (handler_ask callModel clk key rawPrompt st)) k = Some v"
  proof (cases "cache_hit clk key ?st1")
    case None
    from pr show ?thesis
    proof (elim disjE exE conjE)
      fix err
      assume "processRequestDirectly callModel (t_done clk) (t_store clk) key rawPrompt
          (t_start clk) ?st1 = (Inl err, ?st1\<lparr>requestCounter := requestCounter ?st1 + 1\<rparr>)"
      with that None have "recentAnswers ?st1 k = Some v"
        by (simp add: miss fresh_round_def)
      then show ?thesis by (blast dest: vacuum_sub)
    next
      fix voting
      assume p: "processRequestDirectly callModel (t_done clk) (t_store clk) key rawPrompt
          (t_start clk) ?st1
          = (Inr (finalAnswer voting, t_done clk - t_start clk, finalConfidence voting),
             ?st1\<lparr>requestCounter := requestCounter ?st1 + 1,
                recentAnswers := (recentAnswers ?st1)(key \<mapsto>
                  \<lparr>c_answer = finalAnswer voting, ts = t_store clk\<rparr>)\<rparr>)"
        and v: "callGeminiEnsemble callModel (buildPrompt rawPrompt) (options_of rawPrompt)
            (image_of rawPrompt) = Inr voting"
      show ?thesis
      proof (cases "k = key")
        case True
        with that None p v show ?thesis
          by (auto simp: miss fresh_round_def)
      next
        case False
        with that None p have "recentAnswers ?st1 k = Some v"
          by (simp add: miss fresh_round_def)
        then show ?thesis by (blast dest: vacuum_sub)
      qed
    qed
  next
    case (Some c)
    with that have "recentAnswers ?st1 k = Some v" by (simp add: hit)
    then show ?thesis by (blast dest: vacuum_sub)
  qed
  from 1 2 3 show ?thesis by blast
qed

text \<open>
  All four models fail: the request is answered 400 and the entry of another key stays.
\<close>

theorem failed_round_leaves_cache_witness:
  "fst (handler_ask (round_of (failed 0) (failed 1) (failed 2) (failed 3))
          \<lparr>t_vacuum = 2000, t_lookup = 2000, t_start = 2000, t_done = 9000, t_store = 9000\<rparr>
          ''q'' (Text ''q'')
          \<lparr>recentAnswers = [''p'' \<mapsto> \<lparr>c_answer = ''A'', ts = 1000\<rparr>], requestCounter = 0\<rparr>)
     = BadRequest ''All models failed including Judge''
   \<and> recentAnswers (snd (handler_ask (round_of (failed 0) (failed 1) (failed 2) (failed 3))
          \<lparr>t_vacuum = 2000, t_lookup = 2000, t_start = 2000, t_done = 9000, t_store = 9000\<rparr>
          ''q'' (Text ''q'')
          \<lparr>recentAnswers = [''p'' \<mapsto> \<lparr>c_answer = ''A'', ts = 1000\<rparr>], requestCounter = 0\<rparr>))
     = [''p'' \<mapsto> \<lparr>c_answer = ''A'', ts = 1000\<rparr>]"
proof -
  let ?w = "round_of (failed 0) (failed 1) (failed 2) (failed 3)"
  let ?clk = "\<lparr>t_vacuum = 2000, t_lookup = 2000, t_start = 2000, t_done = 9000, t_store = 9000\<rparr>"
  let ?st = "\<lparr>recentAnswers = [''p'' \<mapsto> \<lparr>c_answer = ''A'', ts = 1000\<rparr>], requestCounter = 0\<rparr>"
  have round: "callGeminiEnsemble ?w (buildPrompt (Text ''q'')) [] None
      = Inl ''All models failed including Judge''"
    by code_simp
  have vac: "recentAnswers (vacuum 2000 ?st) = [''p'' \<mapsto> \<lparr>c_answer = ''A'', ts = 1000\<rparr>]"
    by (auto simp: vacuum_def TTL_MS_def)
  have bad: "fst (handler_ask ?w ?clk ''q'' (Text ''q'') ?st)
      = BadRequest ''All models failed including Judge''"
    using round
    by (simp add: handler_ask_def cache_hit_def vac fresh_round_def processRequestDirectly_def
        ENSEMBLE_MODE_def Let_def options_of_def image_of_def)
  from failed_round_leaves_cache
    [of ?w _ _ "''q''" "Text ''q''" _ ?st _ ?clk "''All models failed including Judge''"] bad
  have "recentAnswers (snd (handler_ask ?w ?clk ''q'' (Text ''q'') ?st))
      = recentAnswers (vacuum (t_vacuum ?clk) ?st)"
    by blast
  with bad vac show ?thesis by simp
qed

section \<open>The order of the extraction strategies\<close>

text \<open>
  The JSON strategies come first: when the text, its fence marks deleted, is JSON, or
  else the text matched by the expression for a JSON object is, the result is read from
  it and no strategy that looks at letters is asked.
\<close>

lemma json_first:
  assumes "rw \<noteq> []"
    and "whole_json (trim rw) = Some res
         \<or> (whole_json (trim rw) = None \<and> json_in_text (trim rw) = Some res)"
  shows "parseAnswerWithConfidence (Some rw) = res"
  using assms by (auto simp: parseAnswerWithConfidence_def)

lemma confidence_in_range: "0 \<le> confidence_of v \<and> confidence_of v \<le> 100"
  by (simp add: confidence_of_def)

text \<open>
  C6. The reply below ends in the JSON object that answers C with the confidence 95, and
  has a brace and the words \<open>Answer: B\<close> before it. The expression for a JSON object
  matches from the first brace of the text, so that what it matches is not JSON, and the
  strategy of the labeled answer returns B with the confidence 65. The second reply is
  JSON with the confidence 0, which \<^verbatim>\<open>parseInt(...) || 50\<close> turns into 50.
\<close>

theorem json_priority_lost:
  \<open>from_json ''{"answer": "C", "confidence": 95}'' = Some (''C'', 95)
   \<and> js_includes ''Set {A} is wrong. Answer: B is a trap. JSON: {"answer": "C", "confidence": 95}''
         ''{"answer": "C", "confidence": 95}''
   \<and> parseAnswerWithConfidence
        (Some ''Set {A} is wrong. Answer: B is a trap. JSON: {"answer": "C", "confidence": 95}'')
      = (''B'', 65)
   \<and> parseAnswerWithConfidence (Some ''{"answer": "A", "confidence": 0}'') = (''A'', 50)\<close>
  by code_simp

section \<open>Retries of the provider client\<close>

lemma attempt_loop_success:
  assumes "a \<le> j" and "j \<le> retries"
    and "\<And>i. a \<le> i \<Longrightarrow> i < j \<Longrightarrow> isl (try_attempt m (provider i))"
    and "try_attempt m (provider j) = Inr res"
  shows "\<exists>w. attempt_loop provider m retries a waits = (res, j, w)"
  using assms
proof (induction "j - a" arbitrary: a waits)
  case 0
  then have "a = j" by simp
  with 0 show ?case
    by (subst attempt_loop.simps) simp
next
  case (Suc d)
  then have lt: "a < j" by simp
  with Suc.prems(3) [of a] obtain err where err: "try_attempt m (provider a) = Inl err"
    by (cases "try_attempt m (provider a)") simp_all
  have "\<exists>w. attempt_loop provider m retries (a + 1) w' = (res, j, w)" for w'
  proof (rule Suc.hyps(1))
    show "d = j - (a + 1)" using Suc.hyps(2) by simp
    show "a + 1 \<le> j" using lt by simp
    show "j \<le> retries" by (rule Suc.prems(2))
    show "isl (try_attempt m (provider i))" if "a + 1 \<le> i" "i < j" for i
      using that Suc.prems(3) [of i] by simp
    show "try_attempt m (provider j) = Inr res" by (rule Suc.prems(4))
  qed
  with lt err Suc.prems(2) show ?case
    by (subst attempt_loop.simps) simp
qed

lemma attempt_loop_failure:
  assumes "a \<le> retries" and "1 \<le> a"
    and "\<And>i. a \<le> i \<Longrightarrow> i \<le> retries \<Longrightarrow> isl (try_attempt m (provider i))"
  shows "\<exists>w. attempt_loop provider m retries a waits =
    (Failure m (if isOverload (err_message (projl (try_attempt m (provider retries))))
                then ''Server Overload (Max Retries)''
                else formatError (projl (try_attempt m (provider retries)))),
     retries, w)"
  using assms
proof (induction "retries - a" arbitrary: a waits)
  case 0
  then have a: "a = retries" by simp
  with 0(4) [of retries] obtain err where "try_attempt m (provider retries) = Inl err"
    by (cases "try_attempt m (provider retries)") simp_all
  with a show ?case
    by (subst attempt_loop.simps) simp
next
  case (Suc d)
  then have lt: "a < retries" by simp
  with Suc.prems(3) [of a] obtain err where err: "try_attempt m (provider a) = Inl err"
    by (cases "try_attempt m (provider a)") simp_all
  have "\<exists>w. attempt_loop provider m retries (a + 1) w' =
    (Failure m (if isOverload (err_message (projl (try_attempt m (provider retries))))
                then ''Server Overload (Max Retries)''
                else formatError (projl (try_attempt m (provider retries)))),
     retries, w)" for w'
  proof (rule Suc.hyps(1))
    show "d = retries - (a + 1)" using Suc.hyps(2) by simp
    show "a + 1 \<le> retries" using lt by simp
    show "1 \<le> a + 1" by simp
    show "isl (try_attempt m (provider i))" if "a + 1 \<le> i" "i \<le> retries" for i
      using that Suc.prems(3) [of i] by simp
  qed
  with lt err show ?case
    by (subst attempt_loop.simps) simp
qed

text \<open>
  C3, as the code has it. With \<open>retries\<close> of 1 or more, \<^verbatim>\<open>callSingleModel\<close> tries again
  after every attempt that failed, whatever its error is (a 401, a 404, an overload, a
  network error, an empty or unreadable reply), until an attempt succeeds, which ends
  the call with its result, or \<open>retries\<close> attempts are made, which ends it with the
  failure of the last error. The client of the REST variant fetches once at most, and
  without a key not at all.
\<close>

theorem every_failure_retried:
  assumes "1 \<le> retries"
  shows "(\<forall>j res. 1 \<le> j \<and> j \<le> retries
            \<and> (\<forall>i. 1 \<le> i \<and> i < j \<longrightarrow> isl (try_attempt m (provider i)))
            \<and> try_attempt m (provider j) = Inr res
          \<longrightarrow> fst (callSingleModel provider m retries) = res
              \<and> fst (snd (callSingleModel provider m retries)) = j)
    \<and> ((\<forall>i. 1 \<le> i \<and> i \<le> retries \<longrightarrow> isl (try_attempt m (provider i)))
          \<longrightarrow> fst (callSingleModel provider m retries) =
                Failure m (if isOverload (err_message (projl (try_attempt m (provider retries))))
                           then ''Server Overload (Max Retries)''
                           else formatError (projl (try_attempt m (provider retries))))
              \<and> fst (snd (callSingleModel provider m retries)) = retries)
    \<and> snd (callGeminiREST apiKey fetched m) \<le> 1
    \<and> callGeminiREST None fetched m = (Failure m ''Missing API Key'', 0)"
proof -
  have 1: "fst (callSingleModel provider m retries) = res
      \<and> fst (snd (callSingleModel provider m retries)) = j"
    if "1 \<le> j" "j \<le> retries" "\<forall>i. 1 \<le> i \<and> i < j \<longrightarrow> isl (try_attempt m (provider i))"
      "try_attempt m (provider j) = Inr res" for j res
  proof -
    from that have "\<exists>w. attempt_loop provider m retries 1 [] = (res, j, w)"
      by (intro attempt_loop_success) simp_all
    then show ?thesis by (auto simp: callSingleModel_def)
  qed
  have 2: "fst (callSingleModel provider m retries) =
                Failure m (if isOverload (err_message (projl (try_attempt m (provider retries))))
                           then ''Server Overload (Max Retries)''
                           else formatError (projl (try_attempt m (provider retries))))
              \<and> fst (snd (callSingleModel provider m retries)) = retries"
    if "\<forall>i. 1 \<le> i \<and> i \<le> retries \<longrightarrow> isl (try_attempt m (provider i))"
  proof -
    from that assms have "\<exists>w. attempt_loop provider m retries 1 [] =
      (Failure m (if isOverload (err_message (projl (try_attempt m (provider retries))))
                  then ''Server Overload (Max Retries)''
                  else formatError (projl (try_attempt m (provider retries)))),
       retries, w)"
      by (intro attempt_loop_failure) simp_all
    then show ?thesis by (auto simp: callSingleModel_def)
  qed
  have 3: "snd (callGeminiREST apiKey fetched m) \<le> 1"
    by (simp add: callGeminiREST_def split: fetch_outcome.splits option.splits)
  have 4: "callGeminiREST None fetched m = (Failure m ''Missing API Key'', 0)"
    by (simp add: callGeminiREST_def)
  from 1 2 3 4 show ?thesis by blast
qed

text \<open>
  The provider answers 401 twice and then with a JSON reply: the third attempt returns
  the answer.
\<close>

theorem every_failure_retried_witness:
  \<open>callSingleModel
     (\<lambda>n. if n < 3
          then Throws \<lparr>err_name = ''Error'', err_message = ''[401 Unauthorized] API key not valid''\<rparr>
          else Responds \<lparr>resp_text = TextFunction (Some ''{"answer": "b", "confidence": 77}''),
                         first_part_text = None\<rparr>)
     ''gemini-2.5-pro'' 3
   = (Success ''gemini-2.5-pro'' ''B'' 77 ''{"answer": "b", "confidence": 77}'', 3, [1000, 2000])\<close>
proof -
  let ?p = \<open>\<lambda>n::nat. if n < 3
          then Throws \<lparr>err_name = ''Error'', err_message = ''[401 Unauthorized] API key not valid''\<rparr>
          else Responds \<lparr>resp_text = TextFunction (Some ''{"answer": "b", "confidence": 77}''),
                         first_part_text = None\<rparr>\<close>
  let ?res = \<open>Success ''gemini-2.5-pro'' ''B'' 77 ''{"answer": "b", "confidence": 77}''\<close>
  have ok: "try_attempt ''gemini-2.5-pro'' (?p 3) = Inr ?res"
    by code_simp
  have bad: "\<forall>i. 1 \<le> i \<and> i < 3 \<longrightarrow> isl (try_attempt ''gemini-2.5-pro'' (?p i))"
    by (simp add: try_attempt_def)
  have three: "(1::nat) \<le> 3" by simp
  note first = every_failure_retried [OF three, of "''gemini-2.5-pro''" ?p, THEN conjunct1,
      rule_format, of 3 ?res]
  have "fst (callSingleModel ?p ''gemini-2.5-pro'' 3) = ?res
      \<and> fst (snd (callSingleModel ?p ''gemini-2.5-pro'' 3)) = 3"
    using ok bad by (intro first) simp
  moreover have "snd (snd (callSingleModel ?p ''gemini-2.5-pro'' 3)) = [1000, 2000]"
    by code_simp
  ultimately show ?thesis
    by (metis prod.collapse)
qed

text \<open>
  The claim as the spec states it fails: an error that \<^verbatim>\<open>formatError\<close> reads as a wrong
  key (401), and one that it reads as a missing model (404), are both tried three times
  of three.
\<close>

theorem no_short_circuit_counterexample:
  "formatError \<lparr>err_name = ''Error'', err_message = ''[401 Unauthorized] API key not valid''\<rparr>
     = sym_key @ '' API key invalid''
   \<and> callSingleModel
       (\<lambda>n. Throws \<lparr>err_name = ''Error'', err_message = ''[401 Unauthorized] API key not valid''\<rparr>)
       ''gemini-2.5-pro'' 3
     = (Failure ''gemini-2.5-pro'' (sym_key @ '' API key invalid''), 3, [1000, 2000])
   \<and> formatError \<lparr>err_name = ''Error'', err_message = ''[404 Not Found] models/gemini-0 is not found''\<rparr>
     = sym_question @ '' Model tidak ada''
   \<and> callSingleModel
       (\<lambda>n. Throws \<lparr>err_name = ''Error'', err_message = ''[404 Not Found] models/gemini-0 is not found''\<rparr>)
       ''gemini-0'' 3
     = (Failure ''gemini-0'' (sym_question @ '' Model tidak ada''), 3, [1000, 2000])"
  by code_simp

text \<open>
  The round of the ensemble calls every model through \<^verbatim>\<open>callSingleModel\<close> with three
  attempts: a model whose three attempts fail is a failed call of the round.
\<close>

lemma call_with_failure:
  assumes "\<forall>i. 1 \<le> i \<and> i \<le> 3 \<longrightarrow> isl (try_attempt m (providers m prompt img i))"
  shows "\<not> success (call_with providers m prompt img)"
proof -
  from assms have "\<exists>w. attempt_loop (providers m prompt img) m 3 1 [] =
      (Failure m (if isOverload (err_message (projl (try_attempt m (providers m prompt img 3))))
                  then ''Server Overload (Max Retries)''
                  else formatError (projl (try_attempt m (providers m prompt img 3)))),
       3, w)"
    by (intro attempt_loop_failure) simp_all
  then show ?thesis by (auto simp: call_with_def callSingleModel_def)
qed

end
